theory Spec2Isabelle
  imports Main "HOL-Library.AList" "HOL-Library.Sublist" "HOL-Library.Multiset"
begin

section \<open>Python values\<close>

text \<open>
  The values that travel through the orchestration core are JSON-like Python objects
  (\<^verbatim>\<open>Dict[str, Any]\<close>). A Python dict keeps its keys in insertion order, and assigning
  to an existing key keeps the key's position: this is exactly \<^const>\<open>AList.update\<close> on an
  association list, with \<^const>\<open>map_of\<close> as lookup. Floating point values are left out.
\<close>

datatype pyval =
    VNone
  | VBool bool
  | VInt int
  | VStr string
  | VList "pyval list"
  | VDict "(string \<times> pyval) list"

type_synonym dict = "(string \<times> pyval) list"

text \<open>Python truthiness (\<^verbatim>\<open>bool(x)\<close>), as used by \<^verbatim>\<open>not x\<close>, \<^verbatim>\<open>x or y\<close>, \<^verbatim>\<open>if x:\<close>.\<close>

fun truthy :: "pyval \<Rightarrow> bool" where
  "truthy VNone = False"
| "truthy (VBool b) = b"
| "truthy (VInt i) = (i \<noteq> 0)"
| "truthy (VStr s) = (s \<noteq> [])"
| "truthy (VList xs) = (xs \<noteq> [])"
| "truthy (VDict d) = (d \<noteq> [])"

section \<open>AgentManager (orchestration\_engine/agent\_manager.py)\<close>

text \<open>
  \<^verbatim>\<open>self.agents: Dict[str, Dict[str, Any]]\<close> maps an agent id to its metadata. Only
  lookups by key are made on it, so it is a map.
\<close>

type_synonym agents = "string \<rightharpoonup> dict"

text \<open>\<^verbatim>\<open>register_agent\<close>: \<^verbatim>\<open>self.agents[agent_id] = agent_metadata\<close>.\<close>

definition register_agent :: "string \<Rightarrow> dict \<Rightarrow> agents \<Rightarrow> agents" where
  "register_agent agent_id agent_metadata ags = ags(agent_id \<mapsto> agent_metadata)"

text \<open>
  \<^verbatim>\<open>os.getenv("GENERIC_AGENT_URL", "http://generic-agent:5000")\<close>; the environment
  variable is a parameter (\<open>None\<close> when it is not set).
\<close>

definition generic_agent_url :: "string option \<Rightarrow> pyval" where
  "generic_agent_url env =
     (case env of None \<Rightarrow> VStr ''http://generic-agent:5000'' | Some u \<Rightarrow> VStr u)"

text \<open>
  \<^verbatim>\<open>
  def get_agent_url(self, agent_id):
      agent_info = self.agents.get(agent_id)
      if not agent_info:
          return None
      return agent_info.get("url") or os.getenv("GENERIC_AGENT_URL", "http://generic-agent:5000")
  \<close>
  \<^verbatim>\<open>not agent_info\<close> holds for \<^verbatim>\<open>None\<close> and for the empty dict alike.
\<close>

definition get_agent_url :: "string option \<Rightarrow> agents \<Rightarrow> string \<Rightarrow> pyval" where
  "get_agent_url env ags agent_id =
     (case ags agent_id of
        None \<Rightarrow> VNone
      | Some agent_info \<Rightarrow>
          if \<not> truthy (VDict agent_info) then VNone
          else (case map_of agent_info ''url'' of
                  None \<Rightarrow> generic_agent_url env
                | Some u \<Rightarrow> if truthy u then u else generic_agent_url env))"

section \<open>WorkflowStore and WorkflowManager (orchestration\_engine/workflow\_manager.py)\<close>

text \<open>
  A task as validated by \<^verbatim>\<open>schemas.Task\<close>: a string \<^verbatim>\<open>agent_id\<close> (the field
  \<open>task_agent_id\<close> here, since \<open>agent_id\<close> is the field of a team member below) and a
  dict \<^verbatim>\<open>task_details\<close>.
\<close>

record task =
  task_agent_id :: string
  task_details :: dict

text \<open>
  One row of the table \<^verbatim>\<open>workflows\<close> (\<^verbatim>\<open>database.Workflow\<close>). The JSON text
  columns \<^verbatim>\<open>tasks\<close> and \<^verbatim>\<open>results\<close> are modelled by the values they encode. The
  column \<^verbatim>\<open>user_id\<close> is a nullable integer. The fields carry the prefix \<open>wf_\<close>.
\<close>

record Workflow =
  wf_id :: string
  wf_name :: string
  wf_tasks :: "task list"
  wf_status :: string
  wf_results :: "pyval list"
  wf_user_id :: "int option"

text \<open>The table: \<^verbatim>\<open>id\<close> is the primary key, so the table is a map from ids to rows.\<close>

type_synonym store = "string \<rightharpoonup> Workflow"

text \<open>
  \<^verbatim>\<open>
  async def _get_workflow_from_db(self, workflow_id, user_id=None):
      query = select(Workflow).where(Workflow.id == workflow_id)
      if user_id:
          query = query.where(Workflow.user_id == user_id)
      result = await session.execute(query)
      return result.scalars().first()
  \<close>
  \<^verbatim>\<open>if user_id:\<close> is false for \<^verbatim>\<open>None\<close> and for \<^verbatim>\<open>0\<close>. In SQL a NULL
  \<^verbatim>\<open>user_id\<close> equals no requester.
\<close>

definition get_workflow_from_db :: "store \<Rightarrow> string \<Rightarrow> int option \<Rightarrow> Workflow option" where
  "get_workflow_from_db db workflow_id user_id =
     (case db workflow_id of
        None \<Rightarrow> None
      | Some w \<Rightarrow>
          (case user_id of
             None \<Rightarrow> Some w
           | Some u \<Rightarrow>
               if u \<noteq> 0 then (if wf_user_id w = Some u then Some w else None)
               else Some w))"

text \<open>The dict returned by \<^verbatim>\<open>get_workflow_status\<close>.\<close>

record snapshot =
  snap_id :: string
  snap_name :: string
  snap_status :: string
  snap_results :: "pyval list"

text \<open>
  \<^verbatim>\<open>
  async def get_workflow_status(self, workflow_id, user_id):
      workflow = await self._get_workflow_from_db(workflow_id, user_id)
      if not workflow:
          return None
      return {"id": workflow.id, "name": workflow.name, "status": workflow.status,
              "results": json.loads(workflow.results) if workflow.results else []}
  \<close>
\<close>

definition get_workflow_status :: "store \<Rightarrow> string \<Rightarrow> int \<Rightarrow> snapshot option" where
  "get_workflow_status db workflow_id user_id =
     (case get_workflow_from_db db workflow_id (Some user_id) of
        None \<Rightarrow> None
      | Some w \<Rightarrow> Some \<lparr>snap_id = wf_id w, snap_name = wf_name w,
                         snap_status = wf_status w, snap_results = wf_results w\<rparr>)"

text \<open>
  \<^verbatim>\<open>_update_workflow_status\<close> and \<^verbatim>\<open>_update_workflow_results\<close>:
  \<^verbatim>\<open>update(Workflow).where(Workflow.id == workflow_id).values(...)\<close> changes the row when
  it exists and nothing otherwise.
\<close>

definition update_workflow_status :: "string \<Rightarrow> string \<Rightarrow> store \<Rightarrow> store" where
  "update_workflow_status workflow_id st db =
     (case db workflow_id of
        None \<Rightarrow> db
      | Some w \<Rightarrow> db(workflow_id \<mapsto> w\<lparr>wf_status := st\<rparr>))"

definition update_workflow_results :: "string \<Rightarrow> pyval list \<Rightarrow> store \<Rightarrow> store" where
  "update_workflow_results workflow_id rs db =
     (case db workflow_id of
        None \<Rightarrow> db
      | Some w \<Rightarrow> db(workflow_id \<mapsto> w\<lparr>wf_results := rs\<rparr>))"

text \<open>
  The outcome of \<^verbatim>\<open>client.post(f"{agent_url}/execute", json=task_details, timeout=60)\<close>
  followed by \<^verbatim>\<open>response.raise_for_status()\<close> and \<^verbatim>\<open>response.json()\<close>: a decoded
  body, an \<^verbatim>\<open>httpx.RequestError\<close> (network failure or timeout), which the loop catches,
  or any other exception (\<^verbatim>\<open>httpx.HTTPStatusError\<close> of \<^verbatim>\<open>raise_for_status\<close>, a
  JSON decoding error), which the loop does not catch. The remote agents are a parameter:
  a function of the task index, the url and the payload.
\<close>

datatype http_outcome =
    Response pyval
  | RequestError string
  | OtherError string

type_synonym http = "nat \<Rightarrow> pyval \<Rightarrow> dict \<Rightarrow> http_outcome"

text \<open>
  What a concurrent reader of the table can see during a run: the table after each
  committed write, and the table at the moment a task's agent is invoked.
\<close>

datatype obs =
    AfterWrite store
  | AtInvoke nat store

fun obs_store :: "obs \<Rightarrow> store" where
  "obs_store (AfterWrite d) = d"
| "obs_store (AtInvoke i d) = d"

record wm_state =
  db :: store
  trace :: "obs list"

definition init :: "store \<Rightarrow> wm_state" where
  "init d = \<lparr>db = d, trace = []\<rparr>"

definition commit :: "(store \<Rightarrow> store) \<Rightarrow> wm_state \<Rightarrow> wm_state" where
  "commit f s = \<lparr>db = f (db s), trace = trace s @ [AfterWrite (f (db s))]\<rparr>"

text \<open>
  The loop of \<^verbatim>\<open>execute_workflow\<close> over \<^verbatim>\<open>enumerate(tasks)\<close>, with the local
  variables \<^verbatim>\<open>results\<close> and \<^verbatim>\<open>final_status\<close>:
  \<^verbatim>\<open>
  for i, task in enumerate(tasks):
      agent_url = self.agent_manager.get_agent_url(agent_id)
      if not agent_url:
          final_status = "failed"; break
      try:
          response = await client.post(...); response.raise_for_status()
          result = response.json()
          results.append(result)
      except httpx.RequestError as e:
          final_status = "failed"; ...; break
  \<close>
  It returns \<open>Inr (results, final_status)\<close> when the loop ends and \<open>Inl e\<close> when an
  exception leaves it. It writes nothing to the table.
\<close>

fun run_tasks ::
  "string option \<Rightarrow> agents \<Rightarrow> http \<Rightarrow> nat \<Rightarrow> task list \<Rightarrow> pyval list \<Rightarrow> wm_state
     \<Rightarrow> (string + pyval list \<times> string) \<times> wm_state" where
  "run_tasks env ags post i [] results s = (Inr (results, ''completed''), s)"
| "run_tasks env ags post i (t # ts) results s =
     (let agent_url = get_agent_url env ags (task_agent_id t) in
      if \<not> truthy agent_url then (Inr (results, ''failed''), s)
      else
        let s' = s\<lparr>trace := trace s @ [AtInvoke i (db s)]\<rparr> in
        (case post i agent_url (task_details t) of
           Response result \<Rightarrow> run_tasks env ags post (Suc i) ts (results @ [result]) s'
         | RequestError e \<Rightarrow> (Inr (results, ''failed''), s')
         | OtherError e \<Rightarrow> (Inl e, s')))"

text \<open>
  \<^verbatim>\<open>
  async def execute_workflow(self, workflow_id):
      workflow = await self._get_workflow_from_db(workflow_id)
      if not workflow:
          return
      await self._update_workflow_status(workflow_id, "running")
      tasks = json.loads(workflow.tasks); results = []; final_status = "completed"
      ... the loop ...
      await self._update_workflow_results(workflow_id, results)
      await self._update_workflow_status(workflow_id, final_status)
  \<close>
  The first component of the result is the exception that left the call, if any. Log
  lines and analytics events do not touch the table \<^verbatim>\<open>workflows\<close> and are left out;
  the database itself is taken to work.
\<close>

definition execute_workflow ::
  "string option \<Rightarrow> agents \<Rightarrow> http \<Rightarrow> string \<Rightarrow> wm_state \<Rightarrow> string option \<times> wm_state" where
  "execute_workflow env ags post workflow_id s =
     (case get_workflow_from_db (db s) workflow_id None of
        None \<Rightarrow> (None, s)
      | Some workflow \<Rightarrow>
          let s1 = commit (update_workflow_status workflow_id ''running'') s in
          (case run_tasks env ags post 0 (wf_tasks workflow) [] s1 of
             (Inl e, s2) \<Rightarrow> (Some e, s2)
           | (Inr (results, final_status), s2) \<Rightarrow>
               let s3 = commit (update_workflow_results workflow_id results) s2;
                   s4 = commit (update_workflow_status workflow_id final_status) s3
               in (None, s4)))"

text \<open>
  The status values of one workflow along a trace, and the changes of value between
  consecutive observations.
\<close>

definition observed_statuses :: "string \<Rightarrow> obs list \<Rightarrow> string list" where
  "observed_statuses workflow_id tr =
     List.map_filter (\<lambda>ob. map_option wf_status (obs_store ob workflow_id)) tr"

fun transitions :: "'a list \<Rightarrow> ('a \<times> 'a) list" where
  "transitions (a # b # xs) = (if a = b then [] else [(a, b)]) @ transitions (b # xs)"
| "transitions [a] = []"
| "transitions [] = []"

text \<open>The index of the task, for an observation made at an invocation.\<close>

fun invoke_index :: "obs \<Rightarrow> nat option" where
  "invoke_index (AtInvoke i d) = Some i"
| "invoke_index (AfterWrite d) = None"

section \<open>Teams (agent\_framework/team.py)\<close>

subsection \<open>Data\<close>

datatype TeamStrategy =
    SEQUENTIAL
  | PARALLEL
  | CONSENSUS
  | LEADER_FOLLOWER
  | PIPELINE
  | OTHER string
  | NO_VALUE string string

text \<open>
  Python does not enforce the annotation of \<^verbatim>\<open>config.strategy\<close>. A value that is
  none of the five members of the enum is one of two kinds. \<open>OTHER s\<close> is an object
  that has an attribute \<^verbatim>\<open>value\<close>, such as a member of another enum; \<open>s\<close> is its
  text \<^verbatim>\<open>str(strategy)\<close>. \<open>NO_VALUE ty s\<close> is an object without that attribute, such
  as a \<^verbatim>\<open>str\<close> or \<^verbatim>\<open>None\<close>; \<open>ty\<close> is the name of its type and \<open>s\<close> its text.
  \<^verbatim>\<open>Team.execute\<close> reads \<^verbatim>\<open>self.config.strategy.value\<close> in a log line before its
  \<^verbatim>\<open>try\<close>.
\<close>

fun has_value :: "TeamStrategy \<Rightarrow> bool" where
  "has_value (NO_VALUE ty s) = False"
| "has_value SEQUENTIAL = True"
| "has_value PARALLEL = True"
| "has_value CONSENSUS = True"
| "has_value LEADER_FOLLOWER = True"
| "has_value PIPELINE = True"
| "has_value (OTHER s) = True"

record TeamMember =
  agent_id :: string
  role :: string
  priority :: int
  required :: bool

record TeamConfiguration =
  team_id :: string
  team_name :: string
  description :: string
  members :: "TeamMember list"
  strategy :: TeamStrategy
  shared_context :: dict
  timeout_seconds :: int
  max_retries :: int

text \<open>
  \<^verbatim>\<open>AgentResult\<close> and \<^verbatim>\<open>TeamResult\<close> share field names in the source; the fields
  carry the prefixes \<open>ar_\<close> and \<open>tr_\<close>. Wall-clock fields (\<^verbatim>\<open>execution_time_ms\<close>,
  \<^verbatim>\<open>timestamp\<close>) are left out.
\<close>

record AgentResult =
  ar_status :: string
  ar_outputs :: dict
  ar_error :: "string option"

record TeamResult =
  tr_team_id :: string
  tr_status :: string
  tr_outputs :: dict
  tr_agent_results :: "(string \<times> AgentResult) list"
  tr_metadata :: dict
  tr_error :: "string option"
  tr_agents_executed :: nat

text \<open>
  The constructor call \<^verbatim>\<open>TeamResult(team_id=..., status=..., outputs=..., ...)\<close>;
  \<^verbatim>\<open>agents_executed\<close> defaults to 0.
\<close>

definition team_result ::
  "string \<Rightarrow> string \<Rightarrow> dict \<Rightarrow> (string \<times> AgentResult) list \<Rightarrow> dict \<Rightarrow> string option \<Rightarrow> TeamResult" where
  "team_result tid st outs ars md err =
     \<lparr>tr_team_id = tid, tr_status = st, tr_outputs = outs, tr_agent_results = ars,
      tr_metadata = md, tr_error = err, tr_agents_executed = 0\<rparr>"

text \<open>
  What \<^verbatim>\<open>await agent.execute(task, self.context)\<close> does is outside the team: it
  returns an \<^verbatim>\<open>AgentResult\<close> or raises an exception with some message, and it may
  write to the shared context. An agent is a function of the task and of the shared
  data, giving the outcome and the shared data after the call.

  Two limits of this model of an agent. \<open>Raises\<close> is an exception of class
  \<^verbatim>\<open>Exception\<close>, the class that every \<^verbatim>\<open>except\<close> clause of \<^verbatim>\<open>team.py\<close> names; a
  \<^verbatim>\<open>BaseException\<close> outside that class (\<^verbatim>\<open>asyncio.CancelledError\<close>,
  \<^verbatim>\<open>KeyboardInterrupt\<close>) passes through all of them to the caller and is not an
  outcome here. And dicts are values: the code keeps \<^verbatim>\<open>result.outputs\<close> by reference
  in \<^verbatim>\<open>agent_results\<close>, in \<^verbatim>\<open>outputs\<close>, in
  \<^verbatim>\<open>shared_data["<id>_output"]\<close> and as the next input of a pipeline, so an agent
  that changes such a dict in place (instead of assigning a new one) also changes the
  outputs recorded for an earlier member, and an agent that changes an \<^verbatim>\<open>AgentResult\<close>
  it has returned changes the recorded result; the agents of the model do neither.
  Which members are invoked, in which order, and under which keys their results are
  recorded does not depend on it.
\<close>

datatype outcome =
    Raises string
  | Returns AgentResult

type_synonym agent = "dict \<Rightarrow> dict \<Rightarrow> outcome \<times> dict"

text \<open>
  The exceptions of \<^verbatim>\<open>Team.execute\<close>: those that can leave a strategy handler, and
  the \<^verbatim>\<open>AttributeError\<close> of reading a missing attribute.
\<close>

datatype exn =
    KeyError string
  | ValueError string
  | AttributeError string
  | AgentException string

text \<open>
  \<^verbatim>\<open>repr\<close> of a Python string whose characters are code points below 256 (the
  characters of \<^typ>\<open>string\<close>): the quote is \<^verbatim>\<open>"\<close> when the string holds a \<^verbatim>\<open>'\<close>
  and no \<^verbatim>\<open>"\<close>, and \<^verbatim>\<open>'\<close> otherwise; the quote and the backslash are escaped with
  a backslash; tab, newline and carriage return are written \<^verbatim>\<open>\t\<close>, \<^verbatim>\<open>\n\<close>,
  \<^verbatim>\<open>\r\<close>; every other character that is not printable is written \<^verbatim>\<open>\xhh\<close>.
\<close>

definition hex_digit :: "nat \<Rightarrow> char" where
  "hex_digit n = ''0123456789abcdef'' ! (n mod 16)"

definition printable :: "char \<Rightarrow> bool" where
  "printable c =
     (let n = (of_char c :: nat) in (32 \<le> n \<and> n < 127) \<or> (161 \<le> n \<and> n \<noteq> 173))"

definition repr_char :: "char \<Rightarrow> char \<Rightarrow> string" where
  "repr_char quote c =
     (if c = quote \<or> c = CHR 0x5C then [CHR 0x5C, c]
      else if c = CHR 0x09 then [CHR 0x5C, CHR ''t'']
      else if c = CHR 0x0A then [CHR 0x5C, CHR ''n'']
      else if c = CHR 0x0D then [CHR 0x5C, CHR ''r'']
      else if printable c then [c]
      else [CHR 0x5C, CHR ''x'', hex_digit (of_char c div 16), hex_digit (of_char c mod 16)])"

definition py_repr :: "string \<Rightarrow> string" where
  "py_repr s =
     (let quote = (if CHR 0x27 \<in> set s \<and> CHR 0x22 \<notin> set s then CHR 0x22 else CHR 0x27)
      in [quote] @ concat (map (repr_char quote) s) @ [quote])"

text \<open>
  \<^verbatim>\<open>str(e)\<close>: for a \<^verbatim>\<open>KeyError\<close> it is the \<^verbatim>\<open>repr\<close> of the key, for the others
  the message.
\<close>

fun exn_str :: "exn \<Rightarrow> string" where
  "exn_str (KeyError k) = py_repr k"
| "exn_str (ValueError m) = m"
| "exn_str (AttributeError m) = m"
| "exn_str (AgentException m) = m"

text \<open>
  A team: its configuration and \<^verbatim>\<open>self.members\<close>, the agents loaded from the
  registry (the field \<open>team_members\<close> here).
\<close>

record Team =
  config :: TeamConfiguration
  team_members :: "string \<rightharpoonup> agent"

text \<open>
  \<^verbatim>\<open>AgentRegistry.get_agent\<close> raises \<^verbatim>\<open>ValueError\<close> for an unknown id;
  \<^verbatim>\<open>Team._load_members\<close> re-raises it for a required member and skips an optional
  one. \<open>Inl\<close> is the exception that leaves the constructor of \<^verbatim>\<open>Team\<close>.
\<close>

fun load_members ::
  "(string \<rightharpoonup> agent) \<Rightarrow> TeamMember list \<Rightarrow> (string \<rightharpoonup> agent) \<Rightarrow> exn + (string \<rightharpoonup> agent)" where
  "load_members registry [] ms = Inr ms"
| "load_members registry (member # rest) ms =
     (case registry (agent_id member) of
        Some agent \<Rightarrow> load_members registry rest (ms(agent_id member \<mapsto> agent))
      | None \<Rightarrow>
          if required member then Inl (ValueError (''Agent not found: '' @ agent_id member))
          else load_members registry rest ms)"

definition new_team :: "TeamConfiguration \<Rightarrow> (string \<rightharpoonup> agent) \<Rightarrow> exn + Team" where
  "new_team cfg registry =
     (case load_members registry (members cfg) Map.empty of
        Inl e \<Rightarrow> Inl e
      | Inr ms \<Rightarrow> Inr \<lparr>config = cfg, team_members = ms\<rparr>)"

text \<open>
  The state of one run: \<^verbatim>\<open>self.context.shared_data\<close>, and a record of the
  invocations made so far, in order, each with the member it was made for and its
  outcome. The record is not in the source; the properties below are stated on it.
\<close>

record run_state =
  shared_data :: dict
  invoked :: "(TeamMember \<times> outcome) list"

definition invoke :: "agent \<Rightarrow> TeamMember \<Rightarrow> dict \<Rightarrow> run_state \<Rightarrow> outcome \<times> run_state" where
  "invoke a member inp st =
     (case a inp (shared_data st) of
        (oc, sd) \<Rightarrow> (oc, \<lparr>shared_data = sd, invoked = invoked st @ [(member, oc)]\<rparr>))"

text \<open>An f-string prints a missing \<^verbatim>\<open>result.error\<close> as \<^verbatim>\<open>None\<close>.\<close>

definition opt_str :: "string option \<Rightarrow> string" where
  "opt_str e = (case e of None \<Rightarrow> ''None'' | Some m \<Rightarrow> m)"

subsection \<open>Ordering of members\<close>

text \<open>
  \<^verbatim>\<open>sorted(self.config.members, key=lambda m: m.priority, reverse=True)\<close>. Python
  sorts stably; with \<^verbatim>\<open>reverse=True\<close> it reverses the list, sorts it stably into
  ascending order, and reverses the result.
\<close>

definition sorted_members :: "TeamMember list \<Rightarrow> TeamMember list" where
  "sorted_members ms = rev (sort_key priority (rev ms))"

text \<open>
  \<^verbatim>\<open>max(xs, key=...)\<close>: the first element with the greatest key; \<^verbatim>\<open>ValueError\<close>
  (here \<open>None\<close>) on the empty list. The text of that error depends on the version of
  Python; the one of CPython 3.11 is used below.
\<close>

fun py_max :: "('a \<Rightarrow> int) \<Rightarrow> 'a list \<Rightarrow> 'a option" where
  "py_max key [] = None"
| "py_max key (x # xs) = Some (fold (\<lambda>y best. if key best < key y then y else best) xs x)"

subsection \<open>SEQUENTIAL\<close>

text \<open>
  The loop of \<^verbatim>\<open>_execute_sequential\<close> over the sorted members, with the local dicts
  \<^verbatim>\<open>agent_results\<close> and \<^verbatim>\<open>outputs\<close>. \<^verbatim>\<open>self.members[member.agent_id]\<close> stands
  before the \<^verbatim>\<open>try\<close>, so its \<^verbatim>\<open>KeyError\<close> leaves the handler; an exception of
  \<^verbatim>\<open>agent.execute\<close> is caught, and ends the run only for a required member.
\<close>

fun sequential_loop ::
  "Team \<Rightarrow> dict \<Rightarrow> TeamMember list \<Rightarrow> (string \<times> AgentResult) list \<Rightarrow> dict \<Rightarrow> run_state
     \<Rightarrow> (exn + TeamResult) \<times> run_state" where
  "sequential_loop T task [] agent_results outputs st =
     (Inr (team_result (team_id (config T)) ''success'' outputs agent_results
             [(''shared_context'', VDict (shared_data st))] None), st)"
| "sequential_loop T task (member # rest) agent_results outputs st =
     (case team_members T (agent_id member) of
        None \<Rightarrow> (Inl (KeyError (agent_id member)), st)
      | Some agent \<Rightarrow>
          (case invoke agent member task st of
             (Raises e, st') \<Rightarrow>
               if required member then
                 (Inr (team_result (team_id (config T)) ''error'' outputs agent_results []
                         (Some (''Required agent '' @ agent_id member @ '' error: '' @ e))), st')
               else sequential_loop T task rest agent_results outputs st'
           | (Returns result, st') \<Rightarrow>
               let agent_results' = AList.update (agent_id member) result agent_results in
               if ar_status result = ''success'' then
                 sequential_loop T task rest agent_results'
                   (AList.update (agent_id member) (VDict (ar_outputs result)) outputs)
                   (st'\<lparr>shared_data :=
                          AList.update (agent_id member @ ''_output'') (VDict (ar_outputs result))
                            (shared_data st')\<rparr>)
               else if required member then
                 (Inr (team_result (team_id (config T)) ''error'' outputs agent_results' []
                         (Some (''Required agent '' @ agent_id member @ '' failed: '' @
                                opt_str (ar_error result)))), st')
               else sequential_loop T task rest agent_results' outputs st'))"

definition execute_sequential :: "Team \<Rightarrow> dict \<Rightarrow> run_state \<Rightarrow> (exn + TeamResult) \<times> run_state" where
  "execute_sequential T task st =
     sequential_loop T task (sorted_members (members (config T))) [] [] st"

subsection \<open>PARALLEL and CONSENSUS\<close>

text \<open>
  \<^verbatim>\<open>_execute_parallel\<close> runs the members one after the other in configuration order
  ("For now, simulate parallel with sequential"). A result is recorded whatever its
  status; only an exception of a required member ends the run.
\<close>

fun parallel_loop ::
  "Team \<Rightarrow> dict \<Rightarrow> TeamMember list \<Rightarrow> (string \<times> AgentResult) list \<Rightarrow> dict \<Rightarrow> run_state
     \<Rightarrow> (exn + TeamResult) \<times> run_state" where
  "parallel_loop T task [] agent_results outputs st =
     (Inr (team_result (team_id (config T)) ''success'' outputs agent_results [] None), st)"
| "parallel_loop T task (member # rest) agent_results outputs st =
     (case team_members T (agent_id member) of
        None \<Rightarrow> (Inl (KeyError (agent_id member)), st)
      | Some agent \<Rightarrow>
          (case invoke agent member task st of
             (Raises e, st') \<Rightarrow>
               if required member then
                 (Inr (team_result (team_id (config T)) ''error'' outputs agent_results []
                         (Some e)), st')
               else parallel_loop T task rest agent_results outputs st'
           | (Returns result, st') \<Rightarrow>
               parallel_loop T task rest
                 (AList.update (agent_id member) result agent_results)
                 (if ar_status result = ''success''
                  then AList.update (agent_id member) (VDict (ar_outputs result)) outputs
                  else outputs)
                 st'))"

definition execute_parallel :: "Team \<Rightarrow> dict \<Rightarrow> run_state \<Rightarrow> (exn + TeamResult) \<times> run_state" where
  "execute_parallel T task st = parallel_loop T task (members (config T)) [] [] st"

text \<open>
  \<^verbatim>\<open>_aggregate_outputs\<close>: for every successful result, in the order of
  \<^verbatim>\<open>agent_results\<close>, every value of its outputs is appended to the list kept under
  its key.
\<close>

definition add_value :: "string \<times> pyval \<Rightarrow> (string \<times> pyval list) list \<Rightarrow> (string \<times> pyval list) list" where
  "add_value kv aggregated =
     AList.update (fst kv)
       ((case map_of aggregated (fst kv) of None \<Rightarrow> [] | Some vs \<Rightarrow> vs) @ [snd kv]) aggregated"

definition aggregate_outputs :: "(string \<times> AgentResult) list \<Rightarrow> dict" where
  "aggregate_outputs agent_results =
     map (\<lambda>kvs. (fst kvs, VList (snd kvs)))
       (fold (\<lambda>ar aggregated.
                if ar_status (snd ar) = ''success''
                then fold add_value (ar_outputs (snd ar)) aggregated
                else aggregated)
             agent_results [])"

definition execute_consensus :: "Team \<Rightarrow> dict \<Rightarrow> run_state \<Rightarrow> (exn + TeamResult) \<times> run_state" where
  "execute_consensus T task st =
     (case execute_parallel T task st of
        (Inl e, st') \<Rightarrow> (Inl e, st')
      | (Inr parallel_result, st') \<Rightarrow>
          (Inr (parallel_result\<lparr>tr_outputs :=
                  AList.update ''consensus''
                    (VDict (aggregate_outputs (tr_agent_results parallel_result)))
                    (tr_outputs parallel_result)\<rparr>), st'))"

subsection \<open>LEADER\_FOLLOWER\<close>

text \<open>
  The loop over the followers has no \<^verbatim>\<open>try\<close> and no test of the result: an
  exception leaves the handler, a result is recorded whatever its status.
\<close>

fun followers_loop ::
  "Team \<Rightarrow> dict \<Rightarrow> TeamMember list \<Rightarrow> (string \<times> AgentResult) list \<Rightarrow> run_state
     \<Rightarrow> (exn + (string \<times> AgentResult) list) \<times> run_state" where
  "followers_loop T task [] agent_results st = (Inr agent_results, st)"
| "followers_loop T task (follower # rest) agent_results st =
     (case team_members T (agent_id follower) of
        None \<Rightarrow> (Inl (KeyError (agent_id follower)), st)
      | Some agent \<Rightarrow>
          (case invoke agent follower task st of
             (Raises e, st') \<Rightarrow> (Inl (AgentException e), st')
           | (Returns result, st') \<Rightarrow>
               followers_loop T task rest
                 (AList.update (agent_id follower) result agent_results) st'))"

definition execute_leader_follower ::
  "Team \<Rightarrow> dict \<Rightarrow> run_state \<Rightarrow> (exn + TeamResult) \<times> run_state" where
  "execute_leader_follower T task st =
     (case py_max priority (members (config T)) of
        None \<Rightarrow> (Inl (ValueError ''max() arg is an empty sequence''), st)
      | Some leader \<Rightarrow>
          let followers = filter (\<lambda>m. agent_id m \<noteq> agent_id leader) (members (config T)) in
          (case team_members T (agent_id leader) of
             None \<Rightarrow> (Inl (KeyError (agent_id leader)), st)
           | Some leader_agent \<Rightarrow>
               (case invoke leader_agent leader task st of
                  (Raises e, st') \<Rightarrow> (Inl (AgentException e), st')
                | (Returns leader_result, st') \<Rightarrow>
                    let agent_results = AList.update (agent_id leader) leader_result [] in
                    if ar_status leader_result \<noteq> ''success'' then
                      (Inr (team_result (team_id (config T)) ''error'' [] agent_results []
                              (Some (''Leader '' @ agent_id leader @ '' failed''))), st')
                    else
                      let st'' = st'\<lparr>shared_data :=
                                   AList.update ''leader_output'' (VDict (ar_outputs leader_result))
                                     (shared_data st')\<rparr> in
                      (case followers_loop T task followers agent_results st'' of
                         (Inl e, st3) \<Rightarrow> (Inl e, st3)
                       | (Inr agent_results', st3) \<Rightarrow>
                           (Inr (team_result (team_id (config T)) ''success''
                                   [(''leader'', VDict (ar_outputs leader_result))]
                                   agent_results' [] None), st3)))))"

subsection \<open>PIPELINE\<close>

text \<open>
  The loop of \<^verbatim>\<open>_execute_pipeline\<close>, with \<^verbatim>\<open>agent_results\<close> and
  \<^verbatim>\<open>current_input\<close>. There is no \<^verbatim>\<open>try\<close>: an exception of a member leaves the
  handler. A required stage whose result is not a success ends the run with
  \<^verbatim>\<open>outputs={}\<close>.
\<close>

fun pipeline_loop ::
  "Team \<Rightarrow> dict \<Rightarrow> TeamMember list \<Rightarrow> (string \<times> AgentResult) list \<Rightarrow> run_state
     \<Rightarrow> (exn + TeamResult) \<times> run_state" where
  "pipeline_loop T current_input [] agent_results st =
     (Inr (team_result (team_id (config T)) ''success'' current_input agent_results [] None), st)"
| "pipeline_loop T current_input (member # rest) agent_results st =
     (case team_members T (agent_id member) of
        None \<Rightarrow> (Inl (KeyError (agent_id member)), st)
      | Some agent \<Rightarrow>
          (case invoke agent member current_input st of
             (Raises e, st') \<Rightarrow> (Inl (AgentException e), st')
           | (Returns result, st') \<Rightarrow>
               let agent_results' = AList.update (agent_id member) result agent_results in
               if ar_status result \<noteq> ''success'' then
                 (if required member then
                    (Inr (team_result (team_id (config T)) ''error'' [] agent_results' []
                            (Some (''Pipeline broken at '' @ agent_id member))), st')
                  else pipeline_loop T current_input rest agent_results' st')
               else pipeline_loop T (ar_outputs result) rest agent_results' st'))"

definition execute_pipeline :: "Team \<Rightarrow> dict \<Rightarrow> run_state \<Rightarrow> (exn + TeamResult) \<times> run_state" where
  "execute_pipeline T task st =
     pipeline_loop T task (sorted_members (members (config T))) [] st"

subsection \<open>Team.execute\<close>

text \<open>
  The body of the \<^verbatim>\<open>try\<close>: the dispatch on the strategy. A value that equals none of
  the five members reaches the final \<^verbatim>\<open>else\<close>.
\<close>

definition run_strategy :: "Team \<Rightarrow> dict \<Rightarrow> run_state \<Rightarrow> (exn + TeamResult) \<times> run_state" where
  "run_strategy T task st =
     (case strategy (config T) of
        SEQUENTIAL \<Rightarrow> execute_sequential T task st
      | PARALLEL \<Rightarrow> execute_parallel T task st
      | CONSENSUS \<Rightarrow> execute_consensus T task st
      | LEADER_FOLLOWER \<Rightarrow> execute_leader_follower T task st
      | PIPELINE \<Rightarrow> execute_pipeline T task st
      | OTHER s \<Rightarrow> (Inl (ValueError (''Unknown strategy: '' @ s)), st)
      | NO_VALUE ty s \<Rightarrow> (Inl (ValueError (''Unknown strategy: '' @ s)), st))"

text \<open>
  The shared context of a run starts as a copy of \<^verbatim>\<open>config.shared_context\<close>.
\<close>

definition initial_state :: "Team \<Rightarrow> run_state" where
  "initial_state T = \<lparr>shared_data = shared_context (config T), invoked = []\<rparr>"

text \<open>
  \<^verbatim>\<open>
  try:
      ... result = await self._execute_<strategy>(task) ...
  except Exception as e:
      result = TeamResult(team_id=..., status="error", outputs={}, error=str(e), ...)
  finally: ...
  result.agents_executed = len(result.agent_results)
  return result
  \<close>
  This is \<^verbatim>\<open>Team.execute\<close> from its \<^verbatim>\<open>try\<close> on, started in the initial state; the
  statements before the \<^verbatim>\<open>try\<close> and the \<^verbatim>\<open>finally\<close> are in \<open>team_execute\<close>
  below. \<^verbatim>\<open>except Exception\<close> catches every exception of the model. The second
  component is the state at the end of the run.
\<close>

definition execute :: "Team \<Rightarrow> dict \<Rightarrow> TeamResult \<times> run_state" where
  "execute T task =
     (case run_strategy T task (initial_state T) of
        (Inl e, st) \<Rightarrow>
          (let result = team_result (team_id (config T)) ''error'' [] [] [] (Some (exn_str e))
           in (result\<lparr>tr_agents_executed := length (tr_agent_results result)\<rparr>, st))
      | (Inr result, st) \<Rightarrow>
          (result\<lparr>tr_agents_executed := length (tr_agent_results result)\<rparr>, st))"

text \<open>
  The whole method. \<^verbatim>\<open>join_team\<close> and \<^verbatim>\<open>leave_team\<close> set and reset the field
  \<^verbatim>\<open>current_team\<close> of every loaded agent (and fields that follow it); the map
  below holds that field by agent id. Neither raises.
  \<^verbatim>\<open>
  self.context = TaskContext(..., shared_data=self.config.shared_context.copy())
  for agent in self.members.values():
      agent.join_team(self.config.team_id, member_ids)
      agent.shared_context = self.context
  self.logger.info(f"... strategy: {self.config.strategy.value}")
  try: ...
  except Exception as e: ...
  finally:
      for agent in self.members.values():
          agent.leave_team()
  ...
  return result
  \<close>
  The log line stands before the \<^verbatim>\<open>try\<close>: for a strategy without the attribute
  \<^verbatim>\<open>value\<close> its \<^verbatim>\<open>AttributeError\<close> goes to the caller, after the agents have
  joined and with no \<^verbatim>\<open>finally\<close> to make them leave. \<open>Inl\<close> is an exception that
  reaches the caller.
\<close>

type_synonym membership = "string \<rightharpoonup> string"

definition join_members :: "Team \<Rightarrow> membership \<Rightarrow> membership" where
  "join_members T cur =
     (\<lambda>a. if a \<in> dom (team_members T) then Some (team_id (config T)) else cur a)"

definition leave_members :: "Team \<Rightarrow> membership \<Rightarrow> membership" where
  "leave_members T cur = (\<lambda>a. if a \<in> dom (team_members T) then None else cur a)"

fun read_value :: "TeamStrategy \<Rightarrow> exn option" where
  "read_value (NO_VALUE ty s) =
     Some (AttributeError ([CHR 0x27] @ ty @ [CHR 0x27] @ '' object has no attribute '' @
                           [CHR 0x27] @ ''value'' @ [CHR 0x27]))"
| "read_value SEQUENTIAL = None"
| "read_value PARALLEL = None"
| "read_value CONSENSUS = None"
| "read_value LEADER_FOLLOWER = None"
| "read_value PIPELINE = None"
| "read_value (OTHER s) = None"

definition team_execute ::
  "Team \<Rightarrow> dict \<Rightarrow> membership \<Rightarrow> (exn + TeamResult) \<times> run_state \<times> membership" where
  "team_execute T task cur =
     (let cur1 = join_members T cur in
      case read_value (strategy (config T)) of
        Some e \<Rightarrow> (Inl e, initial_state T, cur1)
      | None \<Rightarrow>
          (case execute T task of
             (result, st) \<Rightarrow> (Inr result, st, leave_members T cur1)))"

subsection \<open>Vocabulary for the properties\<close>

text \<open>
  The results that the invocations of a log returned, keyed by agent id, in order; and
  the dict obtained by assigning a list of results, one after the other, to a dict.
\<close>

definition returned :: "(TeamMember \<times> outcome) list \<Rightarrow> (string \<times> AgentResult) list" where
  "returned log =
     concat (map (\<lambda>e. case snd e of Returns r \<Rightarrow> [(agent_id (fst e), r)] | Raises msg \<Rightarrow> []) log)"

definition record_all ::
  "(string \<times> AgentResult) list \<Rightarrow> (string \<times> AgentResult) list \<Rightarrow> (string \<times> AgentResult) list" where
  "record_all kvs ars = fold (\<lambda>kv. AList.update (fst kv) (snd kv)) kvs ars"

text \<open>
  A log entry is a required failure when a required member returned a result whose
  status is not \<^verbatim>\<open>success\<close>.
\<close>

definition req_failure :: "TeamMember \<times> outcome \<Rightarrow> bool" where
  "req_failure e =
     (case snd e of Returns res \<Rightarrow> required (fst e) \<and> ar_status res \<noteq> ''success''
      | Raises msg \<Rightarrow> False)"

text \<open>
  The result of a pipeline broken at the member of the last log entry.
\<close>

definition pipeline_error :: "Team \<Rightarrow> (TeamMember \<times> outcome) list \<Rightarrow> (exn + TeamResult) \<Rightarrow> bool" where
  "pipeline_error T log r =
     (\<exists>ars'. r = Inr (team_result (team_id (config T)) ''error'' [] ars' []
                   (Some (''Pipeline broken at '' @ agent_id (fst (last log))))))"

text \<open>
  Whether an outcome is an exception.
\<close>

fun raised :: "outcome \<Rightarrow> bool" where
  "raised (Raises msg) = True"
| "raised (Returns r) = False"

text \<open>
  A log entry stops the run of a strategy: the invocation raised and the member is
  required (under PIPELINE: whatever the member, as \<^verbatim>\<open>_execute_pipeline\<close> has no
  \<^verbatim>\<open>try\<close>), or it returned a result that is not a success for a required member
  under SEQUENTIAL or PIPELINE. PARALLEL and CONSENSUS do not test the status.
\<close>

definition stops :: "TeamStrategy \<Rightarrow> TeamMember \<times> outcome \<Rightarrow> bool" where
  "stops S e =
     (case snd e of
        Raises msg \<Rightarrow> S = PIPELINE \<or> required (fst e)
      | Returns r \<Rightarrow>
          (S = SEQUENTIAL \<or> S = PIPELINE) \<and> required (fst e) \<and> ar_status r \<noteq> ''success'')"


text \<open>
  The order in which a strategy goes through the members.
\<close>

definition run_order :: "TeamStrategy \<Rightarrow> TeamMember list \<Rightarrow> TeamMember list" where
  "run_order S ms = (if S = SEQUENTIAL \<or> S = PIPELINE then sorted_members ms else ms)"


text \<open>
  The shape of the log of a run over the members \<open>ms\<close>, with the way the run ended:
  every member of the list was invoked (\<open>Completed\<close>), an entry stopped the run and a
  result was returned (\<open>Stopped\<close>), or an exception left the handler (\<open>Aborted\<close>).
  Every member before the end has an agent, was invoked, and did not stop the run.
\<close>

datatype ending = Completed | Stopped | Aborted

inductive run_shape ::
  "TeamStrategy \<Rightarrow> Team \<Rightarrow> TeamMember list \<Rightarrow> (TeamMember \<times> outcome) list \<Rightarrow> ending \<Rightarrow> bool" where
  finished: "run_shape S T [] [] Completed"
| unloaded: "team_members T (agent_id m) = None \<Longrightarrow> run_shape S T (m # ms) [] Aborted"
| stopped: "team_members T (agent_id m) \<noteq> None \<Longrightarrow> stops S (m, oc) \<Longrightarrow>
            run_shape S T (m # ms) [(m, oc)]
              (if S = PIPELINE \<and> raised oc then Aborted else Stopped)"
| continued: "team_members T (agent_id m) \<noteq> None \<Longrightarrow> \<not> stops S (m, oc) \<Longrightarrow>
              run_shape S T ms new E \<Longrightarrow> run_shape S T (m # ms) ((m, oc) # new) E"

text \<open>
  The value of a handler agrees with the way the run ended.
\<close>

definition result_ending :: "exn + TeamResult \<Rightarrow> ending \<Rightarrow> bool" where
  "result_ending r E =
     (case r of
        Inl e \<Rightarrow> E = Aborted
      | Inr res \<Rightarrow>
          (E = Completed \<and> tr_status res = ''success'' \<and> tr_error res = None) \<or>
          (E = Stopped \<and> tr_status res = ''error'' \<and> tr_error res \<noteq> None))"

section \<open>Scenarios\<close>

subsection \<open>Registry and status query\<close>

definition example_agents :: agents where
  "example_agents = register_agent ''a1'' [] Map.empty"

definition example_row :: Workflow where
  "example_row = \<lparr>wf_id = ''w1'', wf_name = ''n'', wf_tasks = [], wf_status = ''pending'',
                   wf_results = [], wf_user_id = Some 5\<rparr>"

definition example_db :: store where
  "example_db = [''w1'' \<mapsto> example_row]"

subsection \<open>A workflow of two tasks whose agents both answer\<close>

definition two_tasks :: "task list" where
  "two_tasks = [\<lparr>task_agent_id = ''a'', task_details = []\<rparr>,
               \<lparr>task_agent_id = ''b'', task_details = []\<rparr>]"

definition two_agents :: agents where
  "two_agents = [''a'' \<mapsto> [(''url'', VStr ''u'')], ''b'' \<mapsto> [(''url'', VStr ''v'')]]"

definition numbering_post :: http where
  "numbering_post i url payload = Response (VInt (int i))"

definition fresh_workflow :: Workflow where
  "fresh_workflow = \<lparr>wf_id = ''w'', wf_name = ''n'', wf_tasks = two_tasks,
                      wf_status = ''pending'', wf_results = [], wf_user_id = Some 1\<rparr>"

definition fresh_db :: store where
  "fresh_db = [''w'' \<mapsto> fresh_workflow]"

text \<open>The first delivery of the workflow id, and a second delivery after the first.\<close>

definition first_run :: wm_state where
  "first_run = snd (execute_workflow None two_agents numbering_post ''w'' (init fresh_db))"

definition second_run :: wm_state where
  "second_run = snd (execute_workflow None two_agents numbering_post ''w'' first_run)"

subsection \<open>Agents and teams of the scenarios\<close>

text \<open>
  An agent that returns a success with the given outputs, one that returns an error
  result, and one that raises. None of them touches the shared context.
\<close>

definition succeeds :: "dict \<Rightarrow> agent" where
  "succeeds outs task sd = (Returns \<lparr>ar_status = ''success'', ar_outputs = outs, ar_error = None\<rparr>, sd)"

definition fails :: "string \<Rightarrow> agent" where
  "fails msg task sd = (Returns \<lparr>ar_status = ''error'', ar_outputs = [], ar_error = Some msg\<rparr>, sd)"

definition raises :: "string \<Rightarrow> agent" where
  "raises msg task sd = (Raises msg, sd)"

definition member :: "string \<Rightarrow> int \<Rightarrow> bool \<Rightarrow> TeamMember" where
  "member aid p r = \<lparr>agent_id = aid, role = ''contributor'', priority = p, required = r\<rparr>"

definition team_of :: "TeamStrategy \<Rightarrow> TeamMember list \<Rightarrow> (string \<rightharpoonup> agent) \<Rightarrow> Team" where
  "team_of s ms ags =
     \<lparr>config = \<lparr>team_id = ''t'', team_name = ''n'', description = ''d'', members = ms,
                 strategy = s, shared_context = [], timeout_seconds = 300, max_retries = 3\<rparr>,
      team_members = ags\<rparr>"

text \<open>Teams with a required member that returns an error result.\<close>

definition parallel_required_error :: Team where
  "parallel_required_error = team_of PARALLEL [member ''A'' 1 True] [''A'' \<mapsto> fails ''boom'']"

definition follower_required_error :: Team where
  "follower_required_error =
     team_of LEADER_FOLLOWER [member ''L'' 2 True, member ''F'' 1 True]
       [''L'' \<mapsto> succeeds [], ''F'' \<mapsto> fails ''boom'']"

definition consensus_required_error :: Team where
  "consensus_required_error = team_of CONSENSUS [member ''A'' 1 True] [''A'' \<mapsto> fails ''boom'']"


text \<open>
  The PIPELINE scenario of the specification: A succeeds with \<^verbatim>\<open>{"v": 5}\<close>, the
  required member B returns an error result.
\<close>

definition pipeline_scenario :: Team where
  "pipeline_scenario =
     team_of PIPELINE [member ''A'' 2 True, member ''B'' 1 True]
       [''A'' \<mapsto> succeeds [(''v'', VInt 5)], ''B'' \<mapsto> fails ''boom'']"

text \<open>A pipeline whose second stage raises.\<close>

definition pipeline_raises :: Team where
  "pipeline_raises =
     team_of PIPELINE [member ''A'' 2 True, member ''B'' 1 False]
       [''A'' \<mapsto> succeeds [(''v'', VInt 5)], ''B'' \<mapsto> raises ''boom'']"

text \<open>Misconfigured teams: no members, and a strategy outside the enum.\<close>

definition empty_sequential :: Team where
  "empty_sequential = team_of SEQUENTIAL [] Map.empty"

definition unknown_strategy :: Team where
  "unknown_strategy = team_of (OTHER ''vote'') [member ''A'' 1 True] [''A'' \<mapsto> succeeds []]"

text \<open>Teams of optional members that fail.\<close>

definition optional_raises :: Team where
  "optional_raises = team_of SEQUENTIAL [member ''A'' 1 False] [''A'' \<mapsto> raises ''boom'']"

definition optional_failures :: Team where
  "optional_failures =
     team_of SEQUENTIAL [member ''A'' 2 False, member ''B'' 1 False]
       [''A'' \<mapsto> raises ''boom'', ''B'' \<mapsto> fails ''bad'']"

definition optional_leader_fails :: Team where
  "optional_leader_fails =
     team_of LEADER_FOLLOWER [member ''L'' 2 False, member ''F'' 1 False]
       [''L'' \<mapsto> fails ''bad'', ''F'' \<mapsto> succeeds []]"

definition optional_stage_raises :: Team where
  "optional_stage_raises = team_of PIPELINE [member ''A'' 1 False] [''A'' \<mapsto> raises ''boom'']"


text \<open>
  A configuration whose strategy is the string \<^verbatim>\<open>"sequential"\<close> instead of a member
  of the enum, and a LEADER\_FOLLOWER team without members.
\<close>

definition stringly_typed :: Team where
  "stringly_typed =
     team_of (NO_VALUE ''str'' ''sequential'') [member ''A'' 1 True] [''A'' \<mapsto> succeeds []]"

definition empty_leader_follower :: Team where
  "empty_leader_follower = team_of LEADER_FOLLOWER [] Map.empty"

text \<open>
  A PARALLEL team whose optional member raises and whose required member succeeds.
\<close>

definition optional_parallel_raises :: Team where
  "optional_parallel_raises =
     team_of PARALLEL [member ''A'' 2 False, member ''B'' 1 True]
       [''A'' \<mapsto> raises ''boom'', ''B'' \<mapsto> succeeds []]"

section \<open>Properties of AgentManager\<close>

text \<open>
  An agent that was never registered has no url; a registered agent with non-empty
  metadata and no \<^verbatim>\<open>url\<close> entry gets the generic endpoint.
\<close>

lemma get_agent_url_without_url:
  "ags aid = Some info \<Longrightarrow> info \<noteq> [] \<Longrightarrow> map_of info ''url'' = None \<Longrightarrow>
   get_agent_url env ags aid = generic_agent_url env"
  by (simp add: get_agent_url_def)

lemma get_agent_url_unregistered:
  "ags aid = None \<Longrightarrow> get_agent_url env ags aid = VNone"
  by (simp add: get_agent_url_def)

text \<open>
  C10 (the code at the failing input). An agent registered with empty metadata, as
  \<^verbatim>\<open>test_list_agents\<close> registers \<^verbatim>\<open>a1\<close>, is a registered agent without a
  \<^verbatim>\<open>url\<close> entry; \<^verbatim>\<open>get_agent_url\<close> nevertheless returns \<^verbatim>\<open>None\<close> for it, not
  the generic fallback endpoint, whatever the environment holds.
\<close>

theorem get_agent_url_registered_empty_metadata:
  "example_agents ''a1'' = Some [] \<and> get_agent_url env example_agents ''a1'' = VNone"
  by (simp add: example_agents_def register_agent_def get_agent_url_def)

section \<open>Properties of the workflow status query\<close>

text \<open>For a requester other than 0 the owner is checked.\<close>

lemma get_workflow_status_nonzero_owner:
  "u \<noteq> 0 \<Longrightarrow>
   get_workflow_status d wid u =
     (case d wid of
        None \<Rightarrow> None
      | Some w \<Rightarrow>
          if wf_user_id w = Some u
          then Some \<lparr>snap_id = wf_id w, snap_name = wf_name w,
                      snap_status = wf_status w, snap_results = wf_results w\<rparr>
          else None)"
  by (simp add: get_workflow_status_def get_workflow_from_db_def split: option.splits)

text \<open>
  C8 (the code at the failing input). The workflow \<^verbatim>\<open>w1\<close> belongs to owner 5; the
  requester with owner id 0 receives its snapshot all the same, because the owner filter
  is skipped when \<^verbatim>\<open>user_id\<close> is falsy.
\<close>

theorem get_workflow_status_owner_zero:
  "wf_user_id example_row = Some 5 \<and>
   get_workflow_status example_db ''w1'' 0 =
     Some \<lparr>snap_id = ''w1'', snap_name = ''n'', snap_status = ''pending'', snap_results = []\<rparr>"
  by (simp add: example_db_def example_row_def get_workflow_status_def get_workflow_from_db_def)

section \<open>Properties of workflow execution\<close>

text \<open>The task loop leaves the table alone and adds one observation per invocation.\<close>

lemma run_tasks_trace:
  "run_tasks env ags post i ts rs s = (r, s') \<Longrightarrow>
     db s' = db s \<and> (\<exists>js. trace s' = trace s @ map (\<lambda>j. AtInvoke j (db s)) js)"
proof (induction ts arbitrary: i rs s)
  case Nil
  then show ?case by auto
next
  case (Cons t ts)
  show ?case
  proof (cases "truthy (get_agent_url env ags (task_agent_id t))")
    case False
    with Cons.prems show ?thesis by auto
  next
    case True
    let ?s = "s\<lparr>trace := trace s @ [AtInvoke i (db s)]\<rparr>"
    show ?thesis
    proof (cases "post i (get_agent_url env ags (task_agent_id t)) (task_details t)")
      case (Response result)
      with True Cons.prems have "run_tasks env ags post (Suc i) ts (rs @ [result]) ?s = (r, s')"
        by simp
      from Cons.IH[OF this] obtain js where
        "db s' = db s" "trace s' = trace s @ AtInvoke i (db s) # map (\<lambda>j. AtInvoke j (db s)) js"
        by auto
      then have "trace s' = trace s @ map (\<lambda>j. AtInvoke j (db s)) (i # js)" by simp
      with \<open>db s' = db s\<close> show ?thesis by blast
    next
      case (RequestError e)
      with True Cons.prems have "s' = ?s" by auto
      then have "trace s' = trace s @ map (\<lambda>j. AtInvoke j (db s)) [i]" "db s' = db s" by auto
      then show ?thesis by blast
    next
      case (OtherError e)
      with True Cons.prems have "s' = ?s" by auto
      then have "trace s' = trace s @ map (\<lambda>j. AtInvoke j (db s)) [i]" "db s' = db s" by auto
      then show ?thesis by blast
    qed
  qed
qed


lemma run_tasks_final_status:
  "run_tasks env ags post i ts rs s = (Inr (rs', fs), s') \<Longrightarrow> fs = ''completed'' \<or> fs = ''failed''"
proof (induction ts arbitrary: i rs s)
  case Nil
  then show ?case by simp
next
  case (Cons t ts)
  then show ?case
    by (auto simp: Let_def split: if_splits http_outcome.splits)
qed

lemma observed_statuses_append:
  "observed_statuses wid (xs @ ys) = observed_statuses wid xs @ observed_statuses wid ys"
  by (simp add: observed_statuses_def map_filter_def)

lemma observed_statuses_Cons:
  "observed_statuses wid (ob # xs) =
     (case obs_store ob wid of None \<Rightarrow> [] | Some w \<Rightarrow> [wf_status w]) @ observed_statuses wid xs"
  by (simp add: observed_statuses_def map_filter_def split: option.splits)

lemma observed_statuses_Nil: "observed_statuses wid [] = []"
  by (simp add: observed_statuses_def map_filter_def)

lemma observed_statuses_invokes:
  "d wid = Some w \<Longrightarrow>
   observed_statuses wid (map (\<lambda>j. AtInvoke j d) js) = replicate (length js) (wf_status w)"
  by (induction js) (simp_all add: observed_statuses_Nil observed_statuses_Cons)

lemma transitions_replicate:
  "transitions (a # replicate n a @ xs) = transitions (a # xs)"
  by (induction n) simp_all

lemma transitions_replicate_only:
  "transitions (a # replicate n a) = []"
  using transitions_replicate[of a n "[]"] by simp

lemma execute_workflow_trace:
  assumes "d0 wid = Some w"
  defines "d1 \<equiv> update_workflow_status wid ''running'' d0"
  shows "\<exists>js tl. trace (snd (execute_workflow env ags post wid (init d0))) =
            AfterWrite d1 # map (\<lambda>j. AtInvoke j d1) js @ tl \<and>
          db (snd (execute_workflow env ags post wid (init d0))) =
            (if tl = [] then d1 else obs_store (last tl)) \<and>
          (tl = [] \<or>
           (\<exists>rs fs. (fs = ''completed'' \<or> fs = ''failed'') \<and>
              tl = [AfterWrite (update_workflow_results wid rs d1),
                    AfterWrite (update_workflow_status wid fs (update_workflow_results wid rs d1))]))"
proof -
  let ?s1 = "commit (update_workflow_status wid ''running'') (init d0)"
  have s1: "db ?s1 = d1" "trace ?s1 = [AfterWrite d1]"
    by (simp_all add: commit_def init_def d1_def)
  obtain r s2 where run: "run_tasks env ags post 0 (wf_tasks w) [] ?s1 = (r, s2)"
    by (cases "run_tasks env ags post 0 (wf_tasks w) [] ?s1") auto
  from run_tasks_trace[OF run] s1 obtain js where
    s2: "db s2 = d1" "trace s2 = AfterWrite d1 # map (\<lambda>j. AtInvoke j d1) js"
    by auto
  have found: "get_workflow_from_db (db (init d0)) wid None = Some w"
    using assms(1) by (simp add: get_workflow_from_db_def init_def)
  show ?thesis
  proof (cases r)
    case (Inl e)
    with run found have "snd (execute_workflow env ags post wid (init d0)) = s2"
      by (simp add: execute_workflow_def Let_def)
    with s2 have "trace (snd (execute_workflow env ags post wid (init d0))) =
            AfterWrite d1 # map (\<lambda>j. AtInvoke j d1) js @ []"
      "db (snd (execute_workflow env ags post wid (init d0))) = d1"
      by simp_all
    then show ?thesis by fastforce
  next
    case (Inr p)
    obtain rs fs where p: "p = (rs, fs)" by (cases p)
    from run Inr p have fs: "fs = ''completed'' \<or> fs = ''failed''"
      using run_tasks_final_status by blast
    let ?tl = "[AfterWrite (update_workflow_results wid rs d1),
                AfterWrite (update_workflow_status wid fs (update_workflow_results wid rs d1))]"
    from run Inr p found have
      "trace (snd (execute_workflow env ags post wid (init d0))) =
         trace s2 @ [AfterWrite (update_workflow_results wid rs (db s2)),
                     AfterWrite (update_workflow_status wid fs (update_workflow_results wid rs (db s2)))]"
      "db (snd (execute_workflow env ags post wid (init d0))) =
         update_workflow_status wid fs (update_workflow_results wid rs (db s2))"
      by (simp_all add: execute_workflow_def Let_def commit_def)
    with s2 have "trace (snd (execute_workflow env ags post wid (init d0))) =
            AfterWrite d1 # map (\<lambda>j. AtInvoke j d1) js @ ?tl"
      "db (snd (execute_workflow env ags post wid (init d0))) =
         (if ?tl = [] then d1 else obs_store (last ?tl))"
      by simp_all
    with fs show ?thesis by blast
  qed
qed

lemma status_after_update:
  "d wid = Some w \<Longrightarrow> map_option wf_status (update_workflow_status wid st d wid) = Some st"
  by (simp add: update_workflow_status_def)

lemma results_after_status:
  "d wid = Some w \<Longrightarrow>
   map_option wf_results (update_workflow_status wid st d wid) = Some (wf_results w)"
  by (simp add: update_workflow_status_def)

lemmas scenario_defs = fresh_db_def fresh_workflow_def two_tasks_def two_agents_def numbering_post_def init_def commit_def
  execute_workflow_def get_workflow_from_db_def get_agent_url_def update_workflow_status_def
  update_workflow_results_def observed_statuses_def map_filter_def


text \<open>
  C3 (amended). One delivery of a workflow that is stored with status \<^verbatim>\<open>pending\<close>
  makes only the status changes pending \<open>\<rightarrow>\<close> running, running \<open>\<rightarrow>\<close> completed and
  running \<open>\<rightarrow>\<close> failed observable, whatever the agents answer.
\<close>

theorem status_transitions_single_delivery:
  assumes "d0 wid = Some w" and "wf_status w = ''pending''"
  shows "set (transitions (wf_status w #
            observed_statuses wid (trace (snd (execute_workflow env ags post wid (init d0))))))
         \<subseteq> {(''pending'', ''running''), (''running'', ''completed''), (''running'', ''failed'')}"
proof -
  let ?d1 = "update_workflow_status wid ''running'' d0"
  obtain w1 where w1: "?d1 wid = Some w1" "wf_status w1 = ''running''"
    using assms(1) by (simp add: update_workflow_status_def)
  from execute_workflow_trace[where ?d0.0 = d0 and wid = wid and w = w and env = env and ags = ags and post = post, OF assms(1)] obtain js tl where
    tr: "trace (snd (execute_workflow env ags post wid (init d0))) =
           AfterWrite ?d1 # map (\<lambda>j. AtInvoke j ?d1) js @ tl"
    and tl: "tl = [] \<or>
      (\<exists>rs fs. (fs = ''completed'' \<or> fs = ''failed'') \<and>
         tl = [AfterWrite (update_workflow_results wid rs ?d1),
               AfterWrite (update_workflow_status wid fs (update_workflow_results wid rs ?d1))])"
    by blast
  have obs: "observed_statuses wid (trace (snd (execute_workflow env ags post wid (init d0)))) =
          ''running'' # replicate (length js) ''running'' @ observed_statuses wid tl"
    using w1 by (simp add: tr observed_statuses_Cons observed_statuses_append
        observed_statuses_invokes)
  from tl show ?thesis
  proof
    assume "tl = []"
    then show ?thesis
      using assms(2) by (simp add: obs observed_statuses_Nil transitions_replicate_only)
  next
    assume "\<exists>rs fs. (fs = ''completed'' \<or> fs = ''failed'') \<and>
         tl = [AfterWrite (update_workflow_results wid rs ?d1),
               AfterWrite (update_workflow_status wid fs (update_workflow_results wid rs ?d1))]"
    then obtain rs fs where fs: "fs = ''completed'' \<or> fs = ''failed''"
      and tl': "tl = [AfterWrite (update_workflow_results wid rs ?d1),
               AfterWrite (update_workflow_status wid fs (update_workflow_results wid rs ?d1))]"
      by blast
    obtain w2 where w2: "update_workflow_results wid rs ?d1 wid = Some w2" "wf_status w2 = ''running''"
      using w1 by (simp add: update_workflow_results_def)
    have "observed_statuses wid tl = [''running'', fs]"
      using w2 status_after_update[where d = "update_workflow_results wid rs ?d1" and wid = wid and w = w2 and st = fs]
      by (auto simp add: tl' observed_statuses_Cons observed_statuses_Nil split: option.splits)
    then show ?thesis
      using assms(2) fs by (auto simp add: obs transitions_replicate)
  qed
qed


theorem status_transitions_single_delivery_witness:
  "fresh_db ''w'' = Some fresh_workflow \<and> wf_status fresh_workflow = ''pending'' \<and>
   set (transitions (wf_status fresh_workflow # observed_statuses ''w'' (trace first_run)))
     \<subseteq> {(''pending'', ''running''), (''running'', ''completed''), (''running'', ''failed'')}"
proof -
  have h1: "fresh_db ''w'' = Some fresh_workflow" by (simp add: fresh_db_def)
  have h2: "wf_status fresh_workflow = ''pending''" by (simp add: fresh_workflow_def)
  from status_transitions_single_delivery[where ?d0.0 = fresh_db and wid = "''w''" and w = fresh_workflow
      and env = None and ags = two_agents and post = numbering_post, OF h1 h2] h1 h2
  show ?thesis by (simp add: first_run_def)
qed


text \<open>
  C3 (counterexample). \<^verbatim>\<open>execute_workflow\<close> writes \<^verbatim>\<open>running\<close> without looking at the
  stored status: when the same workflow id is delivered a second time, the completed
  workflow is observed as running again.
\<close>

theorem duplicate_delivery_regresses:
  "observed_statuses ''w'' (trace first_run) =
     [''running'', ''running'', ''running'', ''running'', ''completed''] \<and>
   (''completed'', ''running'') \<in>
     set (transitions (''pending'' # observed_statuses ''w'' (trace second_run)))"
  by (simp add: second_run_def first_run_def scenario_defs)


text \<open>
  C9 (amended). The results are collected in a local list and persisted by one write
  after the task loop: every state a reader can observe during the run holds either the
  results stored before the run, or the final results of the run, and the latter never
  at a task invocation.
\<close>

theorem results_written_once:
  assumes "d0 wid = Some w"
    and "ob \<in> set (trace (snd (execute_workflow env ags post wid (init d0))))"
  shows "map_option wf_results (obs_store ob wid) = Some (wf_results w) \<or>
         (invoke_index ob = None \<and>
          map_option wf_results (obs_store ob wid) =
            map_option wf_results (db (snd (execute_workflow env ags post wid (init d0))) wid))"
proof -
  let ?d1 = "update_workflow_status wid ''running'' d0"
  let ?s' = "snd (execute_workflow env ags post wid (init d0))"
  have r1: "map_option wf_results (?d1 wid) = Some (wf_results w)"
    using assms(1) by (rule results_after_status)
  from execute_workflow_trace[where ?d0.0 = d0 and wid = wid and w = w and env = env
      and ags = ags and post = post, OF assms(1)]
  obtain js tl where
    tr: "trace ?s' = AfterWrite ?d1 # map (\<lambda>j. AtInvoke j ?d1) js @ tl"
    and dbf: "db ?s' = (if tl = [] then ?d1 else obs_store (last tl))"
    and tl: "tl = [] \<or>
      (\<exists>rs fs. (fs = ''completed'' \<or> fs = ''failed'') \<and>
         tl = [AfterWrite (update_workflow_results wid rs ?d1),
               AfterWrite (update_workflow_status wid fs (update_workflow_results wid rs ?d1))])"
    by blast
  from assms(2) tr consider
    "obs_store ob = ?d1" | "ob \<in> set tl"
    by auto
  then show ?thesis
  proof cases
    case 1
    with r1 show ?thesis by simp
  next
    case 2
    with tl obtain rs fs where
      tl': "tl = [AfterWrite (update_workflow_results wid rs ?d1),
               AfterWrite (update_workflow_status wid fs (update_workflow_results wid rs ?d1))]"
      by auto
    let ?d2 = "update_workflow_results wid rs ?d1"
    obtain w1 where w1: "?d1 wid = Some w1"
      using assms(1) by (simp add: update_workflow_status_def)
    then obtain w2 where w2: "?d2 wid = Some w2" "wf_results w2 = rs"
      by (simp add: update_workflow_results_def)
    have fin: "map_option wf_results (db ?s' wid) = Some rs"
      using w2 by (simp add: dbf tl' update_workflow_status_def)
    from 2 tl' have "ob = AfterWrite ?d2 \<or> ob = AfterWrite (update_workflow_status wid fs ?d2)"
      by simp
    then show ?thesis
      using w2 fin by (auto simp add: update_workflow_status_def)
  qed
qed


theorem results_written_once_witness:
  "fresh_db ''w'' = Some fresh_workflow \<and>
   trace first_run ! 2 \<in> set (trace first_run) \<and>
   invoke_index (trace first_run ! 2) = Some 1 \<and>
   map_option wf_results (obs_store (trace first_run ! 2) ''w'') = Some (wf_results fresh_workflow)"
proof -
  have h1: "fresh_db ''w'' = Some fresh_workflow" by (simp add: fresh_db_def)
  have h2: "trace first_run ! 2 \<in>
      set (trace (snd (execute_workflow None two_agents numbering_post ''w'' (init fresh_db))))"
    by (simp add: first_run_def scenario_defs)
  have h3: "invoke_index (trace first_run ! 2) = Some 1"
    by (simp add: first_run_def scenario_defs)
  from results_written_once[where ?d0.0 = fresh_db and wid = "''w''" and w = fresh_workflow
      and env = None and ags = two_agents and post = numbering_post, OF h1 h2] h1 h2 h3
  show ?thesis by (simp add: first_run_def)
qed

text \<open>
  C9 (counterexample). When the second task is invoked, the first task has answered
  \<^verbatim>\<open>0\<close>, yet the persisted results are still empty; both results appear only at the
  end.
\<close>

theorem results_not_incremental:
  "invoke_index (trace first_run ! 2) = Some 1 \<and>
   numbering_post 0 (VStr ''u'') [] = Response (VInt 0) \<and>
   map_option wf_results (obs_store (trace first_run ! 2) ''w'') = Some [] \<and>
   map_option wf_results (db first_run ''w'') = Some [VInt 0, VInt 1]"
  by (simp add: first_run_def scenario_defs)


section \<open>Properties of teams\<close>

subsection \<open>Evaluation of the scenarios\<close>

lemmas team_defs = team_of_def member_def succeeds_def fails_def raises_def execute_def
  run_strategy_def initial_state_def team_result_def invoke_def
  execute_sequential_def execute_parallel_def execute_consensus_def
  execute_leader_follower_def execute_pipeline_def sorted_members_def
  aggregate_outputs_def add_value_def opt_str_def

lemmas method_defs = team_execute_def join_members_def leave_members_def Let_def

subsection \<open>Loading the members\<close>

text \<open>A team that could be built has loaded all its required members.\<close>

lemma load_members_required:
  "load_members registry ms acc = Inr loaded \<Longrightarrow>
     dom acc \<subseteq> dom loaded \<and> (\<forall>m\<in>set ms. required m \<longrightarrow> agent_id m \<in> dom loaded)"
proof (induction ms arbitrary: acc)
  case Nil
  then show ?case by simp
next
  case (Cons member rest)
  show ?case
  proof (cases "registry (agent_id member)")
    case None
    with Cons.prems have "\<not> required member" "load_members registry rest acc = Inr loaded"
      by (auto split: if_splits)
    with Cons.IH[of acc] show ?thesis by auto
  next
    case (Some a)
    with Cons.prems have "load_members registry rest (acc(agent_id member \<mapsto> a)) = Inr loaded"
      by simp
    from Cons.IH[OF this] have sub: "dom (acc(agent_id member \<mapsto> a)) \<subseteq> dom loaded"
      and rest: "\<forall>m\<in>set rest. required m \<longrightarrow> agent_id m \<in> dom loaded"
      by blast+
    from sub have "dom acc \<subseteq> dom loaded" "agent_id member \<in> dom loaded"
      by auto
    with rest show ?thesis by simp
  qed
qed

lemma new_team_loads_required:
  assumes "new_team cfg registry = Inr T"
  shows "config T = cfg" and "\<forall>m\<in>set (members cfg). required m \<longrightarrow> agent_id m \<in> dom (team_members T)"
  using assms load_members_required[of registry "members cfg" Map.empty]
  by (auto simp: new_team_def split: sum.splits)

subsection \<open>The loops and the log\<close>

lemma returned_simps [simp]:
  "returned [] = []"
  "returned ((m, Returns r) # log) = (agent_id m, r) # returned log"
  "returned ((m, Raises e) # log) = returned log"
  by (simp_all add: returned_def)

lemma record_all_simps [simp]:
  "record_all [] ars = ars"
  "record_all ((k, v) # kvs) ars = record_all kvs (AList.update k v ars)"
  by (simp_all add: record_all_def)

lemma invoke_log:
  "invoke a m inp st = (oc, st') \<Longrightarrow> invoked st' = invoked st @ [(m, oc)]"
  by (auto simp: invoke_def split: prod.splits)


lemma returned_append [simp]: "returned (xs @ ys) = returned xs @ returned ys"
  by (simp add: returned_def)

lemma record_all_append [simp]:
  "record_all (xs @ ys) ars = record_all ys (record_all xs ars)"
  by (simp add: record_all_def)

lemma sequential_loop_prefix:
  "sequential_loop T task ms ars outs st = (r, st') \<Longrightarrow>
     prefix (invoked st) (invoked st') \<and>
     prefix (map fst (invoked st')) (map fst (invoked st) @ ms)"
proof (induction ms arbitrary: ars outs st)
  case Nil
  then show ?case by auto
next
  case (Cons member rest)
  from Cons.prems show ?case
    by (auto simp: Let_def split: option.splits prod.splits outcome.splits if_splits
        dest!: invoke_log Cons.IH dest: append_prefixD)
qed

lemma sequential_loop_results:
  "sequential_loop T task ms ars outs st = (Inr res, st') \<Longrightarrow>
   ars = record_all (returned (invoked st)) base \<Longrightarrow>
   tr_agent_results res = record_all (returned (invoked st')) base"
proof (induction ms arbitrary: ars outs st)
  case Nil
  then show ?case by (auto simp: team_result_def)
next
  case (Cons member rest)
  from Cons.prems show ?case
    by (auto simp: Let_def team_result_def split: option.splits prod.splits outcome.splits if_splits
        dest!: invoke_log intro!: Cons.IH)
qed

lemmas loop_splits = option.splits prod.splits outcome.splits if_splits

lemma sequential_loop_success_all:
  "sequential_loop T task ms ars outs st = (Inr res, st') \<Longrightarrow> tr_status res = ''success'' \<Longrightarrow>
   map fst (invoked st') = map fst (invoked st) @ ms"
proof (induction ms arbitrary: ars outs st)
  case Nil
  then show ?case by (auto simp: team_result_def)
next
  case (Cons member rest)
  from Cons.prems show ?case
    by (auto simp: Let_def team_result_def split: loop_splits dest!: invoke_log Cons.IH)
qed

lemma sequential_loop_optional:
  "sequential_loop T task ms ars outs st = (r, st') \<Longrightarrow>
   \<forall>m\<in>set ms. \<not> required m \<and> agent_id m \<in> dom (team_members T) \<Longrightarrow>
   \<exists>res. r = Inr res \<and> tr_status res = ''success''"
proof (induction ms arbitrary: ars outs st)
  case Nil
  then show ?case by (auto simp: team_result_def)
next
  case (Cons member rest)
  from Cons.prems show ?case
    by (auto simp: Let_def team_result_def split: loop_splits dest!: Cons.IH)
qed

lemma sequential_loop_raise:
  "sequential_loop T task ms ars outs st = (r, st') \<Longrightarrow>
   (m, Raises msg) \<in> set (invoked st') \<Longrightarrow> (m, Raises msg) \<notin> set (invoked st) \<Longrightarrow>
   required m \<Longrightarrow>
   \<exists>res. r = Inr res \<and> tr_status res = ''error'' \<and> (\<exists>pre. tr_error res = Some (pre @ msg))"
proof (induction ms arbitrary: ars outs st)
  case Nil
  then show ?case by auto
next
  case (Cons member rest)
  have IH: "\<And>ars outs st. sequential_loop T task rest ars outs st = (r, st') \<Longrightarrow>
      (m, Raises msg) \<notin> set (invoked st) \<Longrightarrow>
      \<exists>res. r = Inr res \<and> tr_status res = ''error'' \<and> (\<exists>pre. tr_error res = Some (pre @ msg))"
    using Cons.IH Cons.prems(2,4) by blast
  from Cons.prems show ?case
    by (auto simp: Let_def team_result_def split: loop_splits dest!: invoke_log intro: IH)
qed


lemma parallel_loop_all:
  "parallel_loop T task ms ars outs st = (Inr res, st') \<Longrightarrow> tr_status res = ''success'' \<Longrightarrow>
   map fst (invoked st') = map fst (invoked st) @ ms"
proof (induction ms arbitrary: ars outs st)
  case Nil
  then show ?case by (auto simp: team_result_def)
next
  case (Cons member rest)
  from Cons.prems show ?case
    by (auto simp: Let_def team_result_def split: loop_splits dest!: invoke_log Cons.IH)
qed

lemma parallel_loop_results:
  "parallel_loop T task ms ars outs st = (Inr res, st') \<Longrightarrow>
   ars = record_all (returned (invoked st)) base \<Longrightarrow>
   tr_agent_results res = record_all (returned (invoked st')) base"
proof (induction ms arbitrary: ars outs st)
  case Nil
  then show ?case by (auto simp: team_result_def)
next
  case (Cons member rest)
  from Cons.prems show ?case
    by (auto simp: Let_def team_result_def split: loop_splits dest!: invoke_log intro!: Cons.IH)
qed

lemma parallel_loop_optional:
  "parallel_loop T task ms ars outs st = (r, st') \<Longrightarrow>
   \<forall>m\<in>set ms. \<not> required m \<and> agent_id m \<in> dom (team_members T) \<Longrightarrow>
   \<exists>res. r = Inr res \<and> tr_status res = ''success''"
proof (induction ms arbitrary: ars outs st)
  case Nil
  then show ?case by (auto simp: team_result_def)
next
  case (Cons member rest)
  from Cons.prems show ?case
    by (auto simp: Let_def team_result_def split: loop_splits dest!: Cons.IH)
qed

lemma parallel_loop_raise:
  "parallel_loop T task ms ars outs st = (r, st') \<Longrightarrow>
   (m, Raises msg) \<in> set (invoked st') \<Longrightarrow> (m, Raises msg) \<notin> set (invoked st) \<Longrightarrow>
   required m \<Longrightarrow>
   \<exists>res. r = Inr res \<and> tr_status res = ''error'' \<and> tr_error res = Some msg"
proof (induction ms arbitrary: ars outs st)
  case Nil
  then show ?case by auto
next
  case (Cons member rest)
  have IH: "\<And>ars outs st. parallel_loop T task rest ars outs st = (r, st') \<Longrightarrow>
      (m, Raises msg) \<notin> set (invoked st) \<Longrightarrow>
      \<exists>res. r = Inr res \<and> tr_status res = ''error'' \<and> tr_error res = Some msg"
    using Cons.IH Cons.prems(2,4) by blast
  from Cons.prems show ?case
    by (auto simp: Let_def team_result_def split: loop_splits dest!: invoke_log intro: IH)
qed


lemma pipeline_loop_prefix:
  "pipeline_loop T inp ms ars st = (r, st') \<Longrightarrow>
     prefix (invoked st) (invoked st') \<and>
     prefix (map fst (invoked st')) (map fst (invoked st) @ ms)"
proof (induction ms arbitrary: inp ars st)
  case Nil
  then show ?case by auto
next
  case (Cons member rest)
  from Cons.prems show ?case
    by (auto simp: Let_def split: loop_splits dest!: invoke_log Cons.IH dest: append_prefixD)
qed

lemma pipeline_loop_results:
  "pipeline_loop T inp ms ars st = (Inr res, st') \<Longrightarrow>
   ars = record_all (returned (invoked st)) base \<Longrightarrow>
   tr_agent_results res = record_all (returned (invoked st')) base"
proof (induction ms arbitrary: inp ars st)
  case Nil
  then show ?case by (auto simp: team_result_def)
next
  case (Cons member rest)
  from Cons.prems show ?case
    by (auto simp: Let_def team_result_def split: loop_splits dest!: invoke_log intro!: Cons.IH)
qed

lemma pipeline_loop_success_all:
  "pipeline_loop T inp ms ars st = (Inr res, st') \<Longrightarrow> tr_status res = ''success'' \<Longrightarrow>
   map fst (invoked st') = map fst (invoked st) @ ms"
proof (induction ms arbitrary: inp ars st)
  case Nil
  then show ?case by (auto simp: team_result_def)
next
  case (Cons member rest)
  from Cons.prems show ?case
    by (auto simp: Let_def team_result_def split: loop_splits dest!: invoke_log Cons.IH)
qed

lemma pipeline_loop_raise:
  "pipeline_loop T inp ms ars st = (r, st') \<Longrightarrow>
   (m, Raises msg) \<in> set (invoked st') \<Longrightarrow> (m, Raises msg) \<notin> set (invoked st) \<Longrightarrow>
   r = Inl (AgentException msg)"
proof (induction ms arbitrary: inp ars st)
  case Nil
  then show ?case by auto
next
  case (Cons member rest)
  have IH: "\<And>inp ars st. pipeline_loop T inp rest ars st = (r, st') \<Longrightarrow>
      (m, Raises msg) \<notin> set (invoked st) \<Longrightarrow> r = Inl (AgentException msg)"
    using Cons.IH Cons.prems(2) by blast
  from Cons.prems show ?case
    by (auto simp: Let_def team_result_def split: loop_splits dest!: invoke_log intro: IH)
qed

lemma req_failure_simps [simp]:
  "req_failure (m, Returns res) = (required m \<and> ar_status res \<noteq> ''success'')"
  "req_failure (m, Raises msg) = False"
  by (simp_all add: req_failure_def)

lemma pipeline_loop_required_failure:
  "pipeline_loop T inp ms ars st = (r, st') \<Longrightarrow>
   invoked st = [] \<or> \<not> req_failure (last (invoked st)) \<Longrightarrow>
   invoked st' = [] \<or> \<not> req_failure (last (invoked st')) \<or> pipeline_error T (invoked st') r"
proof (induction ms arbitrary: inp ars st)
  case Nil
  then show ?case by auto
next
  case (Cons member rest)
  from Cons.prems show ?case
    by (auto simp: Let_def pipeline_error_def split: loop_splits dest!: invoke_log
        dest: Cons.IH)
qed


lemma followers_loop_raise:
  "followers_loop T task ms ars st = (r, st') \<Longrightarrow>
   (m, Raises msg) \<in> set (invoked st') \<Longrightarrow> (m, Raises msg) \<notin> set (invoked st) \<Longrightarrow>
   r = Inl (AgentException msg)"
proof (induction ms arbitrary: ars st)
  case Nil
  then show ?case by auto
next
  case (Cons member rest)
  have IH: "\<And>ars st. followers_loop T task rest ars st = (r, st') \<Longrightarrow>
      (m, Raises msg) \<notin> set (invoked st) \<Longrightarrow> r = Inl (AgentException msg)"
    using Cons.IH Cons.prems(2) by blast
  from Cons.prems show ?case
    by (auto simp: Let_def split: loop_splits dest!: invoke_log intro: IH)
qed

subsection \<open>Sorting by priority\<close>



lemma mset_sorted_members: "mset (sorted_members ms) = mset ms"
  by (simp add: sorted_members_def)

lemma set_sorted_members: "set (sorted_members ms) = set ms"
  by (simp add: sorted_members_def)

subsection \<open>Dicts and logs\<close>

lemma record_all_keys:
  "subseq (map fst (record_all kvs ars)) (map fst ars @ map fst kvs)"
proof (induction kvs arbitrary: ars)
  case Nil
  then show ?case by simp
next
  case (Cons kv kvs)
  obtain k v where kv: "kv = (k, v)" by (cases kv)
  have "subseq (map fst (record_all kvs (AList.update k v ars)))
          (map fst (AList.update k v ars) @ map fst kvs)"
    by (rule Cons.IH)
  also have "subseq (map fst (AList.update k v ars) @ map fst kvs) (map fst ars @ k # map fst kvs)"
    by (auto simp: update_keys intro: list_emb_append_mono)
  finally show ?case by (simp add: kv)
qed

lemma record_all_dom:
  "fst ` set (record_all kvs ars) = fst ` set ars \<union> fst ` set kvs"
proof (induction kvs arbitrary: ars)
  case Nil
  then show ?case by simp
next
  case (Cons kv kvs)
  obtain k v where kv: "kv = (k, v)" by (cases kv)
  have "fst ` set (record_all kvs (AList.update k v ars)) =
          fst ` set (AList.update k v ars) \<union> fst ` set kvs"
    by (rule Cons.IH)
  then show ?case by (simp add: kv dom_update)
qed

lemma record_all_other:
  "k \<notin> fst ` set kvs \<Longrightarrow> map_of (record_all kvs ars) k = map_of ars k"
  by (induction kvs arbitrary: ars) (auto simp: update_conv')

lemma record_all_lookup:
  "distinct (map fst kvs) \<Longrightarrow> (k, v) \<in> set kvs \<Longrightarrow> map_of (record_all kvs ars) k = Some v"
proof (induction kvs arbitrary: ars)
  case Nil
  then show ?case by simp
next
  case (Cons kv kvs)
  then show ?case
    by (cases kv) (auto simp: record_all_other update_conv' image_iff)
qed

lemma returned_keys_subseq:
  "subseq (map fst (returned log)) (map (\<lambda>e. agent_id (fst e)) log)"
proof (induction log)
  case Nil
  then show ?case by simp
next
  case (Cons e log)
  then show ?case by (cases e; cases "snd e") auto
qed

lemma returned_mem: "(m, Returns r) \<in> set log \<Longrightarrow> (agent_id m, r) \<in> set (returned log)"
  by (induction log) (auto simp: returned_def)

lemma returned_keys: "fst ` set (returned log) \<subseteq> (\<lambda>e. agent_id (fst e)) ` set log"
  by (induction log) (auto simp: returned_def split: outcome.splits)

lemma returned_distinct:
  "distinct (map (\<lambda>e. agent_id (fst e)) log) \<Longrightarrow> distinct (map fst (returned log))"
proof (induction log)
  case Nil
  then show ?case by simp
next
  case (Cons e log)
  then show ?case
    using returned_keys[of log] by (cases e; cases "snd e") (auto simp: image_iff)
qed

lemma raised_not_returned:
  "distinct (map (\<lambda>e. agent_id (fst e)) log) \<Longrightarrow> (m, Raises msg) \<in> set log \<Longrightarrow>
   agent_id m \<notin> fst ` set (returned log)"
proof (induction log)
  case Nil
  then show ?case by simp
next
  case (Cons e log)
  then show ?case
    using returned_keys[of log] by (cases e; cases "snd e") (auto simp: image_iff)
qed

subsection \<open>Runs from the initial state\<close>

lemma initial_log [simp]: "invoked (initial_state T) = []"
  by (simp add: initial_state_def)

lemma execute_run:
  assumes "execute T task = (res, st)"
  shows "\<exists>r. run_strategy T task (initial_state T) = (r, st) \<and>
    (\<forall>e. r = Inl e \<longrightarrow>
       res = team_result (team_id (config T)) ''error'' [] [] [] (Some (exn_str e))) \<and>
    (\<forall>res0. r = Inr res0 \<longrightarrow>
       res = res0\<lparr>tr_agents_executed := length (tr_agent_results res0)\<rparr>)"
  using assms
  by (auto simp: execute_def team_result_def Let_def split: prod.splits sum.splits)

lemma sequential_run:
  assumes "strategy (config T) = SEQUENTIAL"
    and "run_strategy T task (initial_state T) = (r, st)"
  shows "sequential_loop T task (sorted_members (members (config T))) [] [] (initial_state T) = (r, st)"
  using assms by (simp add: run_strategy_def execute_sequential_def)

lemma pipeline_run:
  assumes "strategy (config T) = PIPELINE"
    and "run_strategy T task (initial_state T) = (r, st)"
  shows "pipeline_loop T task (sorted_members (members (config T))) [] (initial_state T) = (r, st)"
  using assms by (simp add: run_strategy_def execute_pipeline_def)

lemma parallel_run:
  assumes "strategy (config T) = PARALLEL"
    and "run_strategy T task (initial_state T) = (r, st)"
  shows "parallel_loop T task (members (config T)) [] [] (initial_state T) = (r, st)"
  using assms by (simp add: run_strategy_def execute_parallel_def)

lemma consensus_run:
  assumes "strategy (config T) = CONSENSUS"
    and "run_strategy T task (initial_state T) = (r, st)"
  shows "\<exists>r0. parallel_loop T task (members (config T)) [] [] (initial_state T) = (r0, st) \<and>
    (\<forall>e. r0 = Inl e \<longrightarrow> r = Inl e) \<and>
    (\<forall>res0. r0 = Inr res0 \<longrightarrow> (\<exists>outs. r = Inr (res0\<lparr>tr_outputs := outs\<rparr>)))"
  using assms
  by (auto simp: run_strategy_def execute_consensus_def execute_parallel_def
      split: prod.splits sum.splits)

lemma sequential_from_start:
  assumes l: "sequential_loop T task ms [] [] (initial_state T) = (r, st)"
  shows "prefix (map fst (invoked st)) ms"
    and "r = Inr res0 \<Longrightarrow> tr_agent_results res0 = record_all (returned (invoked st)) []"
    and "r = Inr res0 \<Longrightarrow> tr_status res0 = ''success'' \<Longrightarrow> map fst (invoked st) = ms"
proof -
  show "prefix (map fst (invoked st)) ms"
    using sequential_loop_prefix[OF l] by simp
  show "tr_agent_results res0 = record_all (returned (invoked st)) []" if "r = Inr res0"
    using sequential_loop_results[where st = "initial_state T" and base = "[]" and T = T
        and task = task and ms = ms and outs = "[]" and res = res0 and st' = st] l that
    by simp
  show "map fst (invoked st) = ms" if "r = Inr res0" "tr_status res0 = ''success''"
    using sequential_loop_success_all[of T task ms "[]" "[]" "initial_state T" res0 st] l that
    by simp
qed

lemma pipeline_from_start:
  assumes l: "pipeline_loop T task ms [] (initial_state T) = (r, st)"
  shows "prefix (map fst (invoked st)) ms"
    and "r = Inr res0 \<Longrightarrow> tr_agent_results res0 = record_all (returned (invoked st)) []"
    and "r = Inr res0 \<Longrightarrow> tr_status res0 = ''success'' \<Longrightarrow> map fst (invoked st) = ms"
proof -
  show "prefix (map fst (invoked st)) ms"
    using pipeline_loop_prefix[OF l] by simp
  show "tr_agent_results res0 = record_all (returned (invoked st)) []" if "r = Inr res0"
    using pipeline_loop_results[where st = "initial_state T" and base = "[]" and T = T
        and inp = task and ms = ms and res = res0 and st' = st] l that
    by simp
  show "map fst (invoked st) = ms" if "r = Inr res0" "tr_status res0 = ''success''"
    using pipeline_loop_success_all[of T task ms "[]" "initial_state T" res0 st] l that
    by simp
qed

lemma parallel_from_start:
  assumes l: "parallel_loop T task ms [] [] (initial_state T) = (r, st)"
  shows "r = Inr res0 \<Longrightarrow> tr_agent_results res0 = record_all (returned (invoked st)) []"
    and "r = Inr res0 \<Longrightarrow> tr_status res0 = ''success'' \<Longrightarrow> map fst (invoked st) = ms"
proof -
  show "tr_agent_results res0 = record_all (returned (invoked st)) []" if "r = Inr res0"
    using parallel_loop_results[where st = "initial_state T" and base = "[]" and T = T
        and task = task and ms = ms and outs = "[]" and res = res0 and st' = st] l that
    by simp
  show "map fst (invoked st) = ms" if "r = Inr res0" "tr_status res0 = ''success''"
    using parallel_loop_all[of T task ms "[]" "[]" "initial_state T" res0 st] l that
    by simp
qed


subsection \<open>The shape of a run\<close>

lemma stops_simps [simp]:
  "stops S (m, Raises msg) = (S = PIPELINE \<or> required m)"
  "stops S (m, Returns r) =
     ((S = SEQUENTIAL \<or> S = PIPELINE) \<and> required m \<and> ar_status r \<noteq> ''success'')"
  by (simp_all add: stops_def)



lemma run_shape_no_stop:
  "run_shape S T ms new E \<Longrightarrow> \<forall>e\<in>set new. \<not> stops S e \<Longrightarrow>
   \<forall>m\<in>set ms. team_members T (agent_id m) \<noteq> None \<Longrightarrow>
   E = Completed \<and> map fst new = ms"
  by (induction rule: run_shape.induct) auto

lemma result_ending_simps [simp]:
  "result_ending (Inl e) E = (E = Aborted)"
  "result_ending (Inr res) E =
     ((E = Completed \<and> tr_status res = ''success'' \<and> tr_error res = None) \<or>
      (E = Stopped \<and> tr_status res = ''error'' \<and> tr_error res \<noteq> None))"
  by (simp_all add: result_ending_def)

lemma sequential_loop_shape:
  "sequential_loop T task ms ars outs st = (r, st') \<Longrightarrow>
     \<exists>new E. invoked st' = invoked st @ new \<and> run_shape SEQUENTIAL T ms new E \<and>
       result_ending r E"
proof (induction ms arbitrary: ars outs st)
  case Nil
  then have "invoked st' = invoked st @ []" "result_ending r Completed"
    by (auto simp: team_result_def)
  then show ?case using run_shape.finished by blast
next
  case (Cons member rest)
  show ?case
  proof (cases "team_members T (agent_id member)")
    case None
    with Cons.prems have "invoked st' = invoked st @ []" "result_ending r Aborted" by auto
    with None show ?thesis using run_shape.unloaded by blast
  next
    case (Some agent)
    obtain oc st1 where inv: "invoke agent member task st = (oc, st1)"
      by (cases "invoke agent member task st")
    note log1 = invoke_log[OF inv]
    show ?thesis
    proof (cases "stops SEQUENTIAL (member, oc)")
      case True
      with Cons.prems Some inv have "st' = st1" "result_ending r Stopped"
        by (cases oc; auto simp: Let_def team_result_def)+
      with log1 have "invoked st' = invoked st @ [(member, oc)]"
        "result_ending r (if SEQUENTIAL = PIPELINE \<and> raised oc then Aborted else Stopped)"
        by simp_all
      moreover have "run_shape SEQUENTIAL T (member # rest) [(member, oc)]
          (if SEQUENTIAL = PIPELINE \<and> raised oc then Aborted else Stopped)"
        using Some True by (intro run_shape.stopped) simp_all
      ultimately show ?thesis by blast
    next
      case False
      with Cons.prems Some inv obtain ars' outs' st2 where
        rec: "sequential_loop T task rest ars' outs' st2 = (r, st')"
        and st2: "invoked st2 = invoked st1"
        by (cases oc) (auto simp: Let_def split: if_splits)
      from Cons.IH[OF rec] obtain new E where
        new: "invoked st' = invoked st2 @ new" "run_shape SEQUENTIAL T rest new E"
          "result_ending r E"
        by blast
      have "invoked st' = invoked st @ ((member, oc) # new)"
        using new(1) st2 log1 by simp
      moreover have "run_shape SEQUENTIAL T (member # rest) ((member, oc) # new) E"
        using Some False new(2) by (intro run_shape.continued) simp_all
      ultimately show ?thesis using new(3) by blast
    qed
  qed
qed

lemma parallel_loop_shape:
  assumes S: "S = PARALLEL \<or> S = CONSENSUS"
  shows "parallel_loop T task ms ars outs st = (r, st') \<Longrightarrow>
     \<exists>new E. invoked st' = invoked st @ new \<and> run_shape S T ms new E \<and> result_ending r E"
proof (induction ms arbitrary: ars outs st)
  case Nil
  then have "invoked st' = invoked st @ []" "result_ending r Completed"
    by (auto simp: team_result_def)
  then show ?case using run_shape.finished by blast
next
  case (Cons member rest)
  show ?case
  proof (cases "team_members T (agent_id member)")
    case None
    with Cons.prems have "invoked st' = invoked st @ []" "result_ending r Aborted" by auto
    with None show ?thesis using run_shape.unloaded by blast
  next
    case (Some agent)
    obtain oc st1 where inv: "invoke agent member task st = (oc, st1)"
      by (cases "invoke agent member task st")
    note log1 = invoke_log[OF inv]
    show ?thesis
    proof (cases "stops S (member, oc)")
      case True
      with S Cons.prems Some inv have "st' = st1" "result_ending r Stopped"
        by (cases oc; auto simp: Let_def team_result_def)+
      with S log1 have "invoked st' = invoked st @ [(member, oc)]"
        "result_ending r (if S = PIPELINE \<and> raised oc then Aborted else Stopped)"
        by auto
      moreover have "run_shape S T (member # rest) [(member, oc)]
          (if S = PIPELINE \<and> raised oc then Aborted else Stopped)"
        using Some True by (intro run_shape.stopped) simp_all
      ultimately show ?thesis by blast
    next
      case False
      with S Cons.prems Some inv obtain ars' outs' where
        rec: "parallel_loop T task rest ars' outs' st1 = (r, st')"
        by (cases oc) (auto simp: Let_def split: if_splits)
      from Cons.IH[OF rec] obtain new E where
        new: "invoked st' = invoked st1 @ new" "run_shape S T rest new E" "result_ending r E"
        by blast
      have "invoked st' = invoked st @ ((member, oc) # new)"
        using new(1) log1 by simp
      moreover have "run_shape S T (member # rest) ((member, oc) # new) E"
        using Some False new(2) by (intro run_shape.continued) simp_all
      ultimately show ?thesis using new(3) by blast
    qed
  qed
qed

lemma pipeline_loop_shape:
  "pipeline_loop T inp ms ars st = (r, st') \<Longrightarrow>
     \<exists>new E. invoked st' = invoked st @ new \<and> run_shape PIPELINE T ms new E \<and>
       result_ending r E"
proof (induction ms arbitrary: inp ars st)
  case Nil
  then have "invoked st' = invoked st @ []" "result_ending r Completed"
    by (auto simp: team_result_def)
  then show ?case using run_shape.finished by blast
next
  case (Cons member rest)
  show ?case
  proof (cases "team_members T (agent_id member)")
    case None
    with Cons.prems have "invoked st' = invoked st @ []" "result_ending r Aborted" by auto
    with None show ?thesis using run_shape.unloaded by blast
  next
    case (Some agent)
    obtain oc st1 where inv: "invoke agent member inp st = (oc, st1)"
      by (cases "invoke agent member inp st")
    note log1 = invoke_log[OF inv]
    show ?thesis
    proof (cases "stops PIPELINE (member, oc)")
      case True
      with Cons.prems Some inv have "st' = st1"
        "result_ending r (if raised oc then Aborted else Stopped)"
        by (cases oc; auto simp: Let_def team_result_def)+
      with log1 have "invoked st' = invoked st @ [(member, oc)]"
        "result_ending r (if PIPELINE = PIPELINE \<and> raised oc then Aborted else Stopped)"
        by simp_all
      moreover have "run_shape PIPELINE T (member # rest) [(member, oc)]
          (if PIPELINE = PIPELINE \<and> raised oc then Aborted else Stopped)"
        using Some True by (intro run_shape.stopped) simp_all
      ultimately show ?thesis by blast
    next
      case False
      with Cons.prems Some inv obtain inp' ars' where
        rec: "pipeline_loop T inp' rest ars' st1 = (r, st')"
        by (cases oc) (auto simp: Let_def split: if_splits)
      from Cons.IH[OF rec] obtain new E where
        new: "invoked st' = invoked st1 @ new" "run_shape PIPELINE T rest new E"
          "result_ending r E"
        by blast
      have "invoked st' = invoked st @ ((member, oc) # new)"
        using new(1) log1 by simp
      moreover have "run_shape PIPELINE T (member # rest) ((member, oc) # new) E"
        using Some False new(2) by (intro run_shape.continued) simp_all
      ultimately show ?thesis using new(3) by blast
    qed
  qed
qed

lemma read_value_None: "read_value S = None \<longleftrightarrow> has_value S"
  by (cases S) simp_all

lemma team_execute_has_value:
  "has_value (strategy (config T)) \<Longrightarrow>
   team_execute T task cur =
     (Inr (fst (execute T task)), snd (execute T task), leave_members T (join_members T cur))"
  by (simp add: team_execute_def Let_def read_value_None[THEN iffD2] split: prod.splits)

lemma team_execute_no_value:
  "\<not> has_value (strategy (config T)) \<Longrightarrow>
   \<exists>msg. team_execute T task cur =
     (Inl (AttributeError msg), initial_state T, join_members T cur)"
  by (cases "strategy (config T)") (simp_all add: team_execute_def Let_def)





lemma execute_shape:
  assumes four: "strategy (config T) \<in> {SEQUENTIAL, PARALLEL, CONSENSUS, PIPELINE}"
    and ex: "execute T task = (res, st)"
  shows "\<exists>E. run_shape (strategy (config T)) T
               (run_order (strategy (config T)) (members (config T))) (invoked st) E \<and>
             (E = Completed \<longrightarrow> tr_status res = ''success'' \<and> tr_error res = None) \<and>
             (E \<noteq> Completed \<longrightarrow> tr_status res = ''error'' \<and> tr_error res \<noteq> None) \<and>
             (E \<noteq> Aborted \<longrightarrow> tr_agent_results res = record_all (returned (invoked st)) []) \<and>
             (E = Aborted \<longrightarrow> tr_agent_results res = [])"
proof -
  let ?S = "strategy (config T)"
  let ?ms = "run_order ?S (members (config T))"
  from execute_run[OF ex] obtain r where run: "run_strategy T task (initial_state T) = (r, st)"
    and err: "\<And>e. r = Inl e \<Longrightarrow>
           res = team_result (team_id (config T)) ''error'' [] [] [] (Some (exn_str e))"
    and ok: "\<And>res0. r = Inr res0 \<Longrightarrow>
           res = res0\<lparr>tr_agents_executed := length (tr_agent_results res0)\<rparr>"
    by blast
  have "\<exists>E. run_shape ?S T ?ms (invoked st) E \<and> result_ending r E \<and>
      (\<forall>res0. r = Inr res0 \<longrightarrow> tr_agent_results res0 = record_all (returned (invoked st)) [])"
  proof -
    consider "?S = SEQUENTIAL" | "?S = PARALLEL" | "?S = CONSENSUS" | "?S = PIPELINE"
      using four by auto
    then show ?thesis
    proof cases
      case 1
      from 1 run have l: "sequential_loop T task (sorted_members (members (config T))) [] []
          (initial_state T) = (r, st)"
        by (rule sequential_run)
      from sequential_loop_shape[OF l] sequential_from_start(2)[OF l] 1 show ?thesis
        by (auto simp: run_order_def)
    next
      case 2
      from 2 run have l: "parallel_loop T task (members (config T)) [] [] (initial_state T) = (r, st)"
        by (rule parallel_run)
      from parallel_loop_shape[OF _ l, of PARALLEL] parallel_from_start(1)[OF l] 2 show ?thesis
        by (auto simp: run_order_def)
    next
      case 3
      from consensus_run[OF 3 run] obtain p where
        l: "parallel_loop T task (members (config T)) [] [] (initial_state T) = (p, st)"
        and e: "\<And>e. p = Inl e \<Longrightarrow> r = Inl e"
        and wrap: "\<And>res0. p = Inr res0 \<Longrightarrow> \<exists>outs. r = Inr (res0\<lparr>tr_outputs := outs\<rparr>)"
        by blast
      from parallel_loop_shape[OF _ l, of CONSENSUS] obtain E where
        sh: "run_shape CONSENSUS T (members (config T)) (invoked st) E" "result_ending p E"
        by auto
      have "result_ending r E \<and>
          (\<forall>res0. r = Inr res0 \<longrightarrow> tr_agent_results res0 = record_all (returned (invoked st)) [])"
      proof (cases p)
        case (Inl x)
        with e sh(2) show ?thesis by auto
      next
        case (Inr res0)
        from wrap[OF Inr] obtain outs where "r = Inr (res0\<lparr>tr_outputs := outs\<rparr>)" by blast
        with Inr sh(2) parallel_from_start(1)[OF l Inr] show ?thesis by auto
      qed
      with sh(1) 3 show ?thesis by (auto simp: run_order_def)
    next
      case 4
      from 4 run have l: "pipeline_loop T task (sorted_members (members (config T))) []
          (initial_state T) = (r, st)"
        by (rule pipeline_run)
      from pipeline_loop_shape[OF l] pipeline_from_start(2)[OF l] 4 show ?thesis
        by (auto simp: run_order_def)
    qed
  qed
  then obtain E where sh: "run_shape ?S T ?ms (invoked st) E" and re: "result_ending r E"
    and ars: "\<And>res0. r = Inr res0 \<Longrightarrow> tr_agent_results res0 = record_all (returned (invoked st)) []"
    by blast
  have "(E = Completed \<longrightarrow> tr_status res = ''success'' \<and> tr_error res = None) \<and>
        (E \<noteq> Completed \<longrightarrow> tr_status res = ''error'' \<and> tr_error res \<noteq> None) \<and>
        (E \<noteq> Aborted \<longrightarrow> tr_agent_results res = record_all (returned (invoked st)) []) \<and>
        (E = Aborted \<longrightarrow> tr_agent_results res = [])"
  proof (cases r)
    case (Inl e)
    with re err[OF Inl] show ?thesis by (simp add: team_result_def)
  next
    case (Inr res0)
    with re ok[OF Inr] ars[OF Inr] show ?thesis by auto
  qed
  with sh show ?thesis by blast
qed

lemma set_run_order: "set (run_order S ms) = set ms"
  by (simp add: run_order_def) (metis mset_sorted_members set_mset_mset)

subsection \<open>Required members\<close>

lemma sequential_loop_error_result:
  "sequential_loop T task ms ars outs st = (r, st') \<Longrightarrow>
   (m, Returns res) \<in> set (invoked st') \<Longrightarrow> (m, Returns res) \<notin> set (invoked st) \<Longrightarrow>
   required m \<Longrightarrow> ar_status res \<noteq> ''success'' \<Longrightarrow>
   \<exists>res0. r = Inr res0 \<and> tr_status res0 = ''error''"
proof (induction ms arbitrary: ars outs st)
  case Nil
  then show ?case by auto
next
  case (Cons member rest)
  have IH: "\<And>ars outs st. sequential_loop T task rest ars outs st = (r, st') \<Longrightarrow>
      (m, Returns res) \<notin> set (invoked st) \<Longrightarrow>
      \<exists>res0. r = Inr res0 \<and> tr_status res0 = ''error''"
    using Cons.IH Cons.prems(2,4,5) by blast
  from Cons.prems show ?case
    by (auto simp: Let_def team_result_def split: loop_splits dest!: invoke_log intro: IH)
qed

lemma pipeline_loop_error_result:
  "pipeline_loop T inp ms ars st = (r, st') \<Longrightarrow>
   (m, Returns res) \<in> set (invoked st') \<Longrightarrow> (m, Returns res) \<notin> set (invoked st) \<Longrightarrow>
   required m \<Longrightarrow> ar_status res \<noteq> ''success'' \<Longrightarrow>
   \<exists>res0. r = Inr res0 \<and> tr_status res0 = ''error''"
proof (induction ms arbitrary: inp ars st)
  case Nil
  then show ?case by auto
next
  case (Cons member rest)
  have IH: "\<And>inp ars st. pipeline_loop T inp rest ars st = (r, st') \<Longrightarrow>
      (m, Returns res) \<notin> set (invoked st) \<Longrightarrow>
      \<exists>res0. r = Inr res0 \<and> tr_status res0 = ''error''"
    using Cons.IH Cons.prems(2,4,5) by blast
  from Cons.prems show ?case
    by (auto simp: Let_def team_result_def split: loop_splits dest!: invoke_log intro: IH)
qed

text \<open>
  Under SEQUENTIAL and PIPELINE the failure of a required member, by an exception or by
  an error result, gives the status \<^verbatim>\<open>error\<close>.
\<close>

lemma required_failure_sequential_pipeline:
  assumes strat: "strategy (config T) = SEQUENTIAL \<or> strategy (config T) = PIPELINE"
    and ex: "execute T task = (res, st)"
    and mem: "(m, oc) \<in> set (invoked st)"
    and req: "required m"
    and failed: "case oc of Raises msg \<Rightarrow> True | Returns r \<Rightarrow> ar_status r \<noteq> ''success''"
  shows "tr_status res = ''error''"
proof -
  from execute_run[OF ex] obtain r0 where run: "run_strategy T task (initial_state T) = (r0, st)"
    and err: "\<And>e. r0 = Inl e \<Longrightarrow>
           res = team_result (team_id (config T)) ''error'' [] [] [] (Some (exn_str e))"
    and ok: "\<And>res0. r0 = Inr res0 \<Longrightarrow>
           res = res0\<lparr>tr_agents_executed := length (tr_agent_results res0)\<rparr>"
    by blast
  have "(\<exists>e. r0 = Inl e) \<or> (\<exists>res0. r0 = Inr res0 \<and> tr_status res0 = ''error'')"
    using strat
  proof
    assume s: "strategy (config T) = SEQUENTIAL"
    from s run have l: "sequential_loop T task (sorted_members (members (config T))) [] []
        (initial_state T) = (r0, st)"
      by (rule sequential_run)
    show ?thesis
    proof (cases oc)
      case (Raises msg)
      with sequential_loop_raise[OF l _ _ req, of msg] mem show ?thesis by auto
    next
      case (Returns r)
      with sequential_loop_error_result[OF l _ _ req, of r] mem failed show ?thesis by auto
    qed
  next
    assume s: "strategy (config T) = PIPELINE"
    from s run have l: "pipeline_loop T task (sorted_members (members (config T))) []
        (initial_state T) = (r0, st)"
      by (rule pipeline_run)
    show ?thesis
    proof (cases oc)
      case (Raises msg)
      with pipeline_loop_raise[OF l, of m msg] mem show ?thesis by auto
    next
      case (Returns r)
      with pipeline_loop_error_result[OF l _ _ req, of r] mem failed show ?thesis by auto
    qed
  qed
  then show ?thesis
    using err ok by (auto simp: team_result_def)
qed

text \<open>
  C1 (the code at the failing inputs). Under PARALLEL and CONSENSUS a required member
  whose invocation returns a result with status \<^verbatim>\<open>error\<close> leaves the team status
  at \<^verbatim>\<open>success\<close>; so does a required follower under LEADER\_FOLLOWER.
\<close>

theorem required_error_result_ignored:
  "required (member ''A'' 1 True) \<and>
   invoked (snd (execute parallel_required_error [])) =
     [(member ''A'' 1 True,
       Returns \<lparr>ar_status = ''error'', ar_outputs = [], ar_error = Some ''boom''\<rparr>)] \<and>
   tr_status (fst (execute parallel_required_error [])) = ''success'' \<and>
   invoked (snd (execute consensus_required_error [])) =
     [(member ''A'' 1 True,
       Returns \<lparr>ar_status = ''error'', ar_outputs = [], ar_error = Some ''boom''\<rparr>)] \<and>
   tr_status (fst (execute consensus_required_error [])) = ''success'' \<and>
   required (member ''F'' 1 True) \<and>
   map_of (tr_agent_results (fst (execute follower_required_error []))) ''F'' =
     Some \<lparr>ar_status = ''error'', ar_outputs = [], ar_error = Some ''boom''\<rparr> \<and>
   tr_status (fst (execute follower_required_error [])) = ''success''"
  by (simp add: parallel_required_error_def consensus_required_error_def
      follower_required_error_def team_defs)

subsection \<open>Order of execution\<close>



subsection \<open>A required stage of a pipeline fails\<close>

lemma pipeline_loop_failure_last:
  "pipeline_loop T inp ms ars st = (r, st') \<Longrightarrow>
   \<forall>x\<in>set (invoked st). \<not> req_failure x \<Longrightarrow>
   e \<in> set (butlast (invoked st')) \<Longrightarrow> \<not> req_failure e"
proof (induction ms arbitrary: inp ars st)
  case Nil
  then show ?case by (auto dest: in_set_butlastD)
next
  case (Cons member rest)
  have IH: "\<And>inp ars st. pipeline_loop T inp rest ars st = (r, st') \<Longrightarrow>
      req_failure e \<Longrightarrow> \<forall>x\<in>set (invoked st). \<not> req_failure x \<Longrightarrow> False"
    using Cons.IH Cons.prems(3) by blast
  from Cons.prems show ?case
    apply (auto simp: Let_def butlast_append split: loop_splits dest!: invoke_log
        dest: in_set_butlastD)
     apply (erule IH, assumption, simp)+
    done
qed

lemma required_failure_is_last:
  assumes l: "pipeline_loop T task ms [] (initial_state T) = (r0, st)"
    and mem: "(m, Returns r) \<in> set (invoked st)"
    and req: "required m" and failed: "ar_status r \<noteq> ''success''"
  shows "invoked st \<noteq> [] \<and> last (invoked st) = (m, Returns r)"
proof -
  from mem have ne: "invoked st \<noteq> []" by auto
  have "\<forall>e\<in>set (butlast (invoked st)). \<not> req_failure e"
    using pipeline_loop_failure_last[OF l] by simp
  with req failed have "(m, Returns r) \<notin> set (butlast (invoked st))"
    by force
  moreover have "set (invoked st) = insert (last (invoked st)) (set (butlast (invoked st)))"
    using ne by (metis append_butlast_last_id list.simps(15) rotate1.simps(2) set_rotate1)
  ultimately show ?thesis using mem ne by auto
qed

lemma pipeline_error_fields:
  assumes "pipeline_error T log (Inr res0)"
  shows "tr_status res0 = ''error''" "tr_outputs res0 = []"
    "tr_error res0 = Some (''Pipeline broken at '' @ agent_id (fst (last log)))"
  using assms by (auto simp: pipeline_error_def team_result_def)

text \<open>
  C2 (amended). Under PIPELINE, when the invocation of a required member returns a
  result whose status is not \<^verbatim>\<open>success\<close>, it is the last invocation of the run,
  and the \<^verbatim>\<open>TeamResult\<close> has status \<^verbatim>\<open>error\<close>, the error
  \<^verbatim>\<open>Pipeline broken at\<close> that member, empty outputs, and \<^verbatim>\<open>agent_results\<close>
  that hold the failed result under the member's id and an entry for every stage that
  ran.
\<close>

theorem pipeline_required_failure:
  assumes strat: "strategy (config T) = PIPELINE"
    and ex: "execute T task = (res, st)"
    and mem: "(m, Returns r) \<in> set (invoked st)"
    and req: "required m"
    and failed: "ar_status r \<noteq> ''success''"
  shows "last (invoked st) = (m, Returns r) \<and>
         tr_status res = ''error'' \<and>
         tr_outputs res = [] \<and>
         tr_error res = Some (''Pipeline broken at '' @ agent_id m) \<and>
         map_of (tr_agent_results res) (agent_id m) = Some r \<and>
         fst ` set (tr_agent_results res) = (\<lambda>e. agent_id (fst e)) ` set (invoked st)"
proof -
  let ?ms = "sorted_members (members (config T))"
  from execute_run[OF ex] obtain r0 where run: "run_strategy T task (initial_state T) = (r0, st)"
    and err: "\<And>e. r0 = Inl e \<Longrightarrow>
           res = team_result (team_id (config T)) ''error'' [] [] [] (Some (exn_str e))"
    and ok: "\<And>res0. r0 = Inr res0 \<Longrightarrow>
           res = res0\<lparr>tr_agents_executed := length (tr_agent_results res0)\<rparr>"
    by blast
  from strat run have l: "pipeline_loop T task ?ms [] (initial_state T) = (r0, st)"
    by (rule pipeline_run)
  from required_failure_is_last[OF l mem req failed]
  have nonempty: "invoked st \<noteq> []" and last: "last (invoked st) = (m, Returns r)"
    by simp_all
  have "invoked st = [] \<or> \<not> req_failure (last (invoked st)) \<or> pipeline_error T (invoked st) r0"
    using pipeline_loop_required_failure[OF l] by simp
  with nonempty last req failed have pe: "pipeline_error T (invoked st) r0"
    by simp
  then obtain res0 where r0: "r0 = Inr res0"
    by (auto simp: pipeline_error_def)
  note f = pipeline_error_fields[OF pe[unfolded r0]]
  have res: "res = res0\<lparr>tr_agents_executed := length (tr_agent_results res0)\<rparr>"
    using ok r0 by simp
  have ars: "tr_agent_results res = record_all (returned (invoked st)) []"
    using pipeline_from_start(2)[OF l r0] res by simp
  obtain pre where log: "invoked st = pre @ [(m, Returns r)]"
    using nonempty last by (metis append_butlast_last_id)
  have lookup: "map_of (tr_agent_results res) (agent_id m) = Some r"
    by (simp add: ars log update_conv')
  have noraise: "\<And>m' msg. (m', Raises msg) \<notin> set (invoked st)"
  proof
    fix m' msg assume "(m', Raises msg) \<in> set (invoked st)"
    then have "r0 = Inl (AgentException msg)"
      using pipeline_loop_raise[OF l] by simp
    with r0 show False by simp
  qed
  have "fst ` set (returned (invoked st)) = (\<lambda>e. agent_id (fst e)) ` set (invoked st)"
  proof
    show "fst ` set (returned (invoked st)) \<subseteq> (\<lambda>e. agent_id (fst e)) ` set (invoked st)"
      by (rule returned_keys)
    show "(\<lambda>e. agent_id (fst e)) ` set (invoked st) \<subseteq> fst ` set (returned (invoked st))"
    proof
      fix k assume "k \<in> (\<lambda>e. agent_id (fst e)) ` set (invoked st)"
      then obtain m' oc where e: "(m', oc) \<in> set (invoked st)" "k = agent_id m'"
        by auto
      with noraise obtain r' where "oc = Returns r'"
        by (cases oc) auto
      with e have "(k, r') \<in> set (returned (invoked st))"
        using returned_mem by simp
      then show "k \<in> fst ` set (returned (invoked st))"
        by (metis fst_conv image_eqI)
    qed
  qed
  then have dom: "fst ` set (tr_agent_results res) = (\<lambda>e. agent_id (fst e)) ` set (invoked st)"
    by (simp add: ars record_all_dom)
  from f res lookup dom log last show ?thesis by simp
qed

theorem pipeline_required_failure_witness:
  "strategy (config pipeline_scenario) = PIPELINE \<and>
   (member ''B'' 1 True,
    Returns \<lparr>ar_status = ''error'', ar_outputs = [], ar_error = Some ''boom''\<rparr>)
     \<in> set (invoked (snd (execute pipeline_scenario []))) \<and>
   required (member ''B'' 1 True) \<and>
   tr_status (fst (execute pipeline_scenario [])) = ''error'' \<and>
   tr_outputs (fst (execute pipeline_scenario [])) = [] \<and>
   tr_error (fst (execute pipeline_scenario [])) = Some ''Pipeline broken at B'' \<and>
   fst ` set (tr_agent_results (fst (execute pipeline_scenario []))) = {''A'', ''B''}"
proof -
  let ?r = "\<lparr>ar_status = ''error'', ar_outputs = [], ar_error = Some ''boom''\<rparr>"
  have h1: "strategy (config pipeline_scenario) = PIPELINE"
    by (simp add: pipeline_scenario_def team_of_def)
  have h2: "execute pipeline_scenario [] =
      (fst (execute pipeline_scenario []), snd (execute pipeline_scenario []))"
    by simp
  have log: "invoked (snd (execute pipeline_scenario [])) =
      [(member ''A'' 2 True,
        Returns \<lparr>ar_status = ''success'', ar_outputs = [(''v'', VInt 5)], ar_error = None\<rparr>),
       (member ''B'' 1 True, Returns ?r)]"
    by (simp add: pipeline_scenario_def team_defs)
  have h3: "(member ''B'' 1 True, Returns ?r) \<in> set (invoked (snd (execute pipeline_scenario [])))"
    by (simp add: log)
  have h4: "required (member ''B'' 1 True)" and h5: "ar_status ?r \<noteq> ''success''"
    by (simp_all add: member_def)
  from pipeline_required_failure[OF h1 h2 h3 h4 h5] h1 h3 h4 show ?thesis
    by (auto simp add: log member_def)
qed

text \<open>
  C2 (counterexample). In the scenario of the specification the outputs of the
  \<^verbatim>\<open>TeamResult\<close> are empty: A's output \<^verbatim>\<open>{"v": 5}\<close> is in \<^verbatim>\<open>agent_results\<close>
  only.
\<close>

theorem pipeline_failure_drops_outputs:
  "tr_status (fst (execute pipeline_scenario [])) = ''error'' \<and>
   map_of (tr_agent_results (fst (execute pipeline_scenario []))) ''A'' =
     Some \<lparr>ar_status = ''success'', ar_outputs = [(''v'', VInt 5)], ar_error = None\<rparr> \<and>
   tr_outputs (fst (execute pipeline_scenario [])) = [] \<and>
   map_of (tr_outputs (fst (execute pipeline_scenario []))) ''v'' = None \<and>
   map_of (tr_outputs (fst (execute pipeline_scenario []))) ''A'' = None"
  by (simp add: pipeline_scenario_def team_defs)

subsection \<open>Exceptions\<close>

lemma leader_follower_raise:
  assumes "execute_leader_follower T task st0 = (r, st)"
    and "invoked st0 = []"
    and "(m, Raises msg) \<in> set (invoked st)"
  shows "r = Inl (AgentException msg)"
proof (cases "py_max priority (members (config T))")
  case None
  with assms show ?thesis by (simp add: execute_leader_follower_def)
next
  case (Some leader)
  show ?thesis
  proof (cases "team_members T (agent_id leader)")
    case None
    with Some assms show ?thesis by (simp add: execute_leader_follower_def Let_def)
  next
    case agent: (Some leader_agent)
    obtain oc st1 where inv: "invoke leader_agent leader task st0 = (oc, st1)"
      by (cases "invoke leader_agent leader task st0")
    have log1: "invoked st1 = [(leader, oc)]"
      using invoke_log[OF inv] assms(2) by simp
    show ?thesis
    proof (cases oc)
      case (Raises e)
      with Some agent inv assms(1) have "r = Inl (AgentException e)" "st = st1"
        by (simp_all add: execute_leader_follower_def Let_def)
      with log1 Raises assms(3) show ?thesis by simp
    next
      case (Returns leader_result)
      show ?thesis
      proof (cases "ar_status leader_result = ''success''")
        case False
        with Some agent inv Returns assms(1) have "st = st1"
          by (simp add: execute_leader_follower_def Let_def)
        with log1 Returns assms(3) show ?thesis by simp
      next
        case True
        let ?st2 = "st1\<lparr>shared_data := AList.update ''leader_output''
                        (VDict (ar_outputs leader_result)) (shared_data st1)\<rparr>"
        let ?fs = "filter (\<lambda>m. agent_id m \<noteq> agent_id leader) (members (config T))"
        obtain r1 st3 where
          fl: "followers_loop T task ?fs (AList.update (agent_id leader) leader_result []) ?st2
                 = (r1, st3)"
          by (cases "followers_loop T task ?fs (AList.update (agent_id leader) leader_result []) ?st2")
        with Some agent inv Returns True assms(1) have st: "st = st3"
          and r: "r1 = Inl (AgentException msg) \<Longrightarrow> r = Inl (AgentException msg)"
          by (auto simp add: execute_leader_follower_def Let_def split: sum.splits)
        have "(m, Raises msg) \<notin> set (invoked ?st2)"
          using log1 Returns by simp
        with followers_loop_raise[OF fl] assms(3) st have "r1 = Inl (AgentException msg)"
          by simp
        with r show ?thesis .
      qed
    qed
  qed
qed

lemma required_raise_message:
  assumes ex: "execute T task = (res, st)"
    and mem: "(m, Raises msg) \<in> set (invoked st)"
    and why: "required m \<or> strategy (config T) = LEADER_FOLLOWER \<or> strategy (config T) = PIPELINE"
  shows "tr_status res = ''error'' \<and> (\<exists>pre. tr_error res = Some (pre @ msg))"
proof -
  from execute_run[OF ex] obtain r where run: "run_strategy T task (initial_state T) = (r, st)"
    and err: "\<And>e. r = Inl e \<Longrightarrow>
           res = team_result (team_id (config T)) ''error'' [] [] [] (Some (exn_str e))"
    and ok: "\<And>res0. r = Inr res0 \<Longrightarrow>
           res = res0\<lparr>tr_agents_executed := length (tr_agent_results res0)\<rparr>"
    by blast
  have inl: "tr_status res = ''error'' \<and> (\<exists>pre. tr_error res = Some (pre @ msg))"
    if "r = Inl (AgentException msg)"
    using err[OF that] by (simp add: team_result_def)
  have inr: "tr_status res = ''error'' \<and> (\<exists>pre. tr_error res = Some (pre @ msg))"
    if "r = Inr res0" "tr_status res0 = ''error''" "tr_error res0 = Some (pre0 @ msg)"
    for res0 pre0
    using ok[OF that(1)] that(2,3) by simp
  show ?thesis
  proof (cases "strategy (config T)")
    case SEQUENTIAL
    from SEQUENTIAL run have l: "sequential_loop T task (sorted_members (members (config T))) [] []
        (initial_state T) = (r, st)"
      by (rule sequential_run)
    from SEQUENTIAL why have "required m" by simp
    from sequential_loop_raise[OF l mem _ this] obtain res0 pre0 where
      "r = Inr res0" "tr_status res0 = ''error''" "tr_error res0 = Some (pre0 @ msg)"
      by auto
    then show ?thesis by (rule inr)
  next
    case PARALLEL
    from PARALLEL run have l: "parallel_loop T task (members (config T)) [] [] (initial_state T) = (r, st)"
      by (rule parallel_run)
    from PARALLEL why have "required m" by simp
    from parallel_loop_raise[OF l mem _ this] obtain res0 where
      "r = Inr res0" "tr_status res0 = ''error''" "tr_error res0 = Some ([] @ msg)"
      by auto
    then show ?thesis by (rule inr)
  next
    case CONSENSUS
    from consensus_run[OF CONSENSUS run] obtain p where
      l: "parallel_loop T task (members (config T)) [] [] (initial_state T) = (p, st)"
      and wrap: "\<And>res0. p = Inr res0 \<Longrightarrow> \<exists>outs. r = Inr (res0\<lparr>tr_outputs := outs\<rparr>)"
      by blast
    from CONSENSUS why have "required m" by simp
    from parallel_loop_raise[OF l mem _ this] obtain res0 where
      p: "p = Inr res0" and s: "tr_status res0 = ''error''" "tr_error res0 = Some ([] @ msg)"
      by auto
    from wrap[OF p] obtain outs where "r = Inr (res0\<lparr>tr_outputs := outs\<rparr>)" by blast
    moreover have "tr_status (res0\<lparr>tr_outputs := outs\<rparr>) = ''error''"
      "tr_error (res0\<lparr>tr_outputs := outs\<rparr>) = Some ([] @ msg)"
      using s by simp_all
    ultimately show ?thesis by (rule inr)
  next
    case LEADER_FOLLOWER
    with run have "execute_leader_follower T task (initial_state T) = (r, st)"
      by (simp add: run_strategy_def)
    from leader_follower_raise[OF this _ mem] have "r = Inl (AgentException msg)" by simp
    then show ?thesis by (rule inl)
  next
    case PIPELINE
    from PIPELINE run have l: "pipeline_loop T task (sorted_members (members (config T))) []
        (initial_state T) = (r, st)"
      by (rule pipeline_run)
    from pipeline_loop_raise[OF l mem] have "r = Inl (AgentException msg)" by simp
    then show ?thesis by (rule inl)
  next
    case (OTHER s)
    with run have "st = initial_state T" by (simp add: run_strategy_def)
    with mem show ?thesis by simp
  next
    case (NO_VALUE ty s)
    with run have "st = initial_state T" by (simp add: run_strategy_def)
    with mem show ?thesis by simp
  qed
qed

lemma no_stop_success:
  assumes ex: "execute T task = (res, st)"
    and three: "strategy (config T) \<in> {SEQUENTIAL, PARALLEL, CONSENSUS}"
    and loaded: "\<forall>m\<in>set (members (config T)). team_members T (agent_id m) \<noteq> None"
    and quiet: "\<forall>e\<in>set (invoked st). \<not> stops (strategy (config T)) e"
  shows "tr_status res = ''success'' \<and> tr_error res = None \<and>
         map fst (invoked st) = run_order (strategy (config T)) (members (config T))"
proof -
  from three have four: "strategy (config T) \<in> {SEQUENTIAL, PARALLEL, CONSENSUS, PIPELINE}"
    by auto
  from execute_shape[OF four ex] obtain E where
    sh: "run_shape (strategy (config T)) T
           (run_order (strategy (config T)) (members (config T))) (invoked st) E"
    and fin: "E = Completed \<longrightarrow> tr_status res = ''success'' \<and> tr_error res = None"
    by blast
  from loaded have "\<forall>m\<in>set (run_order (strategy (config T)) (members (config T))).
      team_members T (agent_id m) \<noteq> None"
    by (simp add: set_run_order)
  from run_shape_no_stop[OF sh quiet this] fin show ?thesis by simp
qed

text \<open>
  C5 (amended). For exceptions of class \<^verbatim>\<open>Exception\<close>: when the strategy of the
  configuration has the attribute \<^verbatim>\<open>value\<close> (every member of the enum has),
  \<^verbatim>\<open>Team.execute\<close> returns a \<^verbatim>\<open>TeamResult\<close> to its caller, whatever the members
  do, and the agents have left the team. An exception raised by the invocation of a
  member is reported, with status \<^verbatim>\<open>error\<close> and an error that ends with the message
  of the exception, when the member is required or the strategy is LEADER\_FOLLOWER
  or PIPELINE. It is not reported when the member is optional and the strategy is
  SEQUENTIAL, PARALLEL or CONSENSUS: if all members are loaded and no invocation stops
  the run, every member is invoked and the result has status \<^verbatim>\<open>success\<close> and no
  error. When the strategy has no attribute \<^verbatim>\<open>value\<close>, the \<^verbatim>\<open>AttributeError\<close> of
  the log line before the \<^verbatim>\<open>try\<close> reaches the caller: no member is invoked and
  the agents stay joined to the team.
\<close>

theorem team_execute_exceptions:
  "(has_value (strategy (config T)) \<longrightarrow>
      (\<exists>res st. team_execute T task cur = (Inr res, st, leave_members T (join_members T cur)) \<and>
         (\<forall>m msg. (m, Raises msg) \<in> set (invoked st) \<and>
              (required m \<or> strategy (config T) = LEADER_FOLLOWER \<or>
               strategy (config T) = PIPELINE) \<longrightarrow>
            tr_status res = ''error'' \<and> (\<exists>pre. tr_error res = Some (pre @ msg))) \<and>
         (strategy (config T) \<in> {SEQUENTIAL, PARALLEL, CONSENSUS} \<and>
          (\<forall>m\<in>set (members (config T)). team_members T (agent_id m) \<noteq> None) \<and>
          (\<forall>e\<in>set (invoked st). \<not> stops (strategy (config T)) e) \<longrightarrow>
            tr_status res = ''success'' \<and> tr_error res = None \<and>
            map fst (invoked st) = run_order (strategy (config T)) (members (config T))))) \<and>
   (\<not> has_value (strategy (config T)) \<longrightarrow>
      (\<exists>msg. team_execute T task cur =
         (Inl (AttributeError msg), initial_state T, join_members T cur)))"
proof (intro conjI impI)
  assume hv: "has_value (strategy (config T))"
  obtain res st where ex: "execute T task = (res, st)"
    by (cases "execute T task")
  have te: "team_execute T task cur = (Inr res, st, leave_members T (join_members T cur))"
    using team_execute_has_value[OF hv, of task cur] ex by simp
  have a: "\<forall>m msg. (m, Raises msg) \<in> set (invoked st) \<and>
              (required m \<or> strategy (config T) = LEADER_FOLLOWER \<or>
               strategy (config T) = PIPELINE) \<longrightarrow>
            tr_status res = ''error'' \<and> (\<exists>pre. tr_error res = Some (pre @ msg))"
    using required_raise_message[OF ex] by blast
  have b: "strategy (config T) \<in> {SEQUENTIAL, PARALLEL, CONSENSUS} \<and>
          (\<forall>m\<in>set (members (config T)). team_members T (agent_id m) \<noteq> None) \<and>
          (\<forall>e\<in>set (invoked st). \<not> stops (strategy (config T)) e) \<longrightarrow>
            tr_status res = ''success'' \<and> tr_error res = None \<and>
            map fst (invoked st) = run_order (strategy (config T)) (members (config T))"
    using no_stop_success[OF ex] by blast
  from te a b show "\<exists>res st.
      team_execute T task cur = (Inr res, st, leave_members T (join_members T cur)) \<and>
      (\<forall>m msg. (m, Raises msg) \<in> set (invoked st) \<and>
              (required m \<or> strategy (config T) = LEADER_FOLLOWER \<or>
               strategy (config T) = PIPELINE) \<longrightarrow>
            tr_status res = ''error'' \<and> (\<exists>pre. tr_error res = Some (pre @ msg))) \<and>
      (strategy (config T) \<in> {SEQUENTIAL, PARALLEL, CONSENSUS} \<and>
          (\<forall>m\<in>set (members (config T)). team_members T (agent_id m) \<noteq> None) \<and>
          (\<forall>e\<in>set (invoked st). \<not> stops (strategy (config T)) e) \<longrightarrow>
            tr_status res = ''success'' \<and> tr_error res = None \<and>
            map fst (invoked st) = run_order (strategy (config T)) (members (config T)))"
    by blast
next
  assume "\<not> has_value (strategy (config T))"
  then show "\<exists>msg. team_execute T task cur =
      (Inl (AttributeError msg), initial_state T, join_members T cur)"
    by (rule team_execute_no_value)
qed

theorem team_execute_exceptions_witness:
  "has_value (strategy (config pipeline_raises)) \<and>
   strategy (config pipeline_raises) = PIPELINE \<and>
   (member ''B'' 1 False, Raises ''boom'') \<in>
     set (invoked (fst (snd (team_execute pipeline_raises [] Map.empty)))) \<and>
   tr_status (projr (fst (team_execute pipeline_raises [] Map.empty))) = ''error'' \<and>
   tr_error (projr (fst (team_execute pipeline_raises [] Map.empty))) = Some ''boom'' \<and>
   has_value (strategy (config optional_parallel_raises)) \<and>
   strategy (config optional_parallel_raises) = PARALLEL \<and>
   map (\<lambda>e. agent_id (fst e))
     (invoked (fst (snd (team_execute optional_parallel_raises [] Map.empty)))) = [''A'', ''B''] \<and>
   map fst (invoked (fst (snd (team_execute optional_parallel_raises [] Map.empty)))) =
     run_order PARALLEL (members (config optional_parallel_raises)) \<and>
   tr_status (projr (fst (team_execute optional_parallel_raises [] Map.empty))) = ''success'' \<and>
   tr_error (projr (fst (team_execute optional_parallel_raises [] Map.empty))) = None \<and>
   \<not> has_value (strategy (config stringly_typed)) \<and>
   isl (fst (team_execute stringly_typed [] Map.empty)) \<and>
   snd (team_execute stringly_typed [] Map.empty) =
     (initial_state stringly_typed, join_members stringly_typed Map.empty)"
proof -
  note ev = pipeline_raises_def optional_parallel_raises_def stringly_typed_def team_defs method_defs
  have hv1: "has_value (strategy (config pipeline_raises))"
    and s1: "strategy (config pipeline_raises) = PIPELINE"
    and m1: "(member ''B'' 1 False, Raises ''boom'') \<in>
       set (invoked (fst (snd (team_execute pipeline_raises [] Map.empty))))"
    and e1: "tr_error (projr (fst (team_execute pipeline_raises [] Map.empty))) = Some ''boom''"
    by (simp_all add: ev)
  have hv2: "has_value (strategy (config optional_parallel_raises))"
    and s2: "strategy (config optional_parallel_raises) = PARALLEL"
    and l2: "map (\<lambda>e. agent_id (fst e))
       (invoked (fst (snd (team_execute optional_parallel_raises [] Map.empty)))) = [''A'', ''B'']"
    and loaded: "\<forall>m\<in>set (members (config optional_parallel_raises)).
       team_members optional_parallel_raises (agent_id m) \<noteq> None"
    and quiet: "\<forall>e\<in>set (invoked (fst (snd (team_execute optional_parallel_raises [] Map.empty)))).
       \<not> stops (strategy (config optional_parallel_raises)) e"
    by (simp_all add: ev stops_def)
  have hv3: "\<not> has_value (strategy (config stringly_typed))"
    by (simp add: ev)
  note thm1 = team_execute_exceptions[of pipeline_raises "[]" Map.empty]
  note thm2 = team_execute_exceptions[of optional_parallel_raises "[]" Map.empty]
  note thm3 = team_execute_exceptions[of stringly_typed "[]" Map.empty]
  from thm1 hv1 obtain res1 st1 where
    t1: "team_execute pipeline_raises [] Map.empty =
           (Inr res1, st1, leave_members pipeline_raises (join_members pipeline_raises Map.empty))"
    and a1: "\<And>m msg. (m, Raises msg) \<in> set (invoked st1) \<Longrightarrow>
           required m \<or> strategy (config pipeline_raises) = LEADER_FOLLOWER \<or>
           strategy (config pipeline_raises) = PIPELINE \<Longrightarrow> tr_status res1 = ''error''"
    by blast
  from m1 t1 have "(member ''B'' 1 False, Raises ''boom'') \<in> set (invoked st1)" by simp
  from a1[OF this] s1 have "tr_status res1 = ''error''" by simp
  with t1 have r1: "tr_status (projr (fst (team_execute pipeline_raises [] Map.empty))) = ''error''"
    by simp
  from thm2 hv2 obtain res2 st2 where
    t2: "team_execute optional_parallel_raises [] Map.empty =
           (Inr res2, st2,
            leave_members optional_parallel_raises (join_members optional_parallel_raises Map.empty))"
    and b2: "strategy (config optional_parallel_raises) \<in> {SEQUENTIAL, PARALLEL, CONSENSUS} \<and>
          (\<forall>m\<in>set (members (config optional_parallel_raises)).
             team_members optional_parallel_raises (agent_id m) \<noteq> None) \<and>
          (\<forall>e\<in>set (invoked st2). \<not> stops (strategy (config optional_parallel_raises)) e) \<longrightarrow>
            tr_status res2 = ''success'' \<and> tr_error res2 = None \<and>
            map fst (invoked st2) =
              run_order (strategy (config optional_parallel_raises))
                (members (config optional_parallel_raises))"
    by blast
  from quiet t2 have "\<forall>e\<in>set (invoked st2). \<not> stops (strategy (config optional_parallel_raises)) e"
    by simp
  with b2 s2 loaded have "tr_status res2 = ''success'' \<and> tr_error res2 = None \<and>
      map fst (invoked st2) = run_order PARALLEL (members (config optional_parallel_raises))"
    by simp
  with t2 have r2:
    "tr_status (projr (fst (team_execute optional_parallel_raises [] Map.empty))) = ''success''"
    "tr_error (projr (fst (team_execute optional_parallel_raises [] Map.empty))) = None"
    "map fst (invoked (fst (snd (team_execute optional_parallel_raises [] Map.empty)))) =
       run_order PARALLEL (members (config optional_parallel_raises))"
    by simp_all
  from thm3 hv3 obtain msg where
    "team_execute stringly_typed [] Map.empty =
       (Inl (AttributeError msg), initial_state stringly_typed,
        join_members stringly_typed Map.empty)"
    by blast
  then have r3: "isl (fst (team_execute stringly_typed [] Map.empty))"
    "snd (team_execute stringly_typed [] Map.empty) =
       (initial_state stringly_typed, join_members stringly_typed Map.empty)"
    by simp_all
  from hv1 s1 m1 r1 e1 hv2 s2 l2 r2 hv3 r3 show ?thesis by blast
qed

text \<open>
  C5 (counterexample). In a PARALLEL team whose members are loaded, the optional
  member A raises \<^verbatim>\<open>boom\<close> and the required member B succeeds: the result has status
  \<^verbatim>\<open>success\<close> and no error, so the exception that occurred is not recorded. And for
  a configuration whose strategy is the string \<^verbatim>\<open>"sequential"\<close> the caller receives
  an \<^verbatim>\<open>AttributeError\<close>, not a \<^verbatim>\<open>TeamResult\<close>.
\<close>

theorem optional_exception_not_reported:
  "team_members optional_parallel_raises ''A'' \<noteq> None \<and>
   team_members optional_parallel_raises ''B'' \<noteq> None \<and>
   map agent_id (members (config optional_parallel_raises)) = [''A'', ''B''] \<and>
   invoked (fst (snd (team_execute optional_parallel_raises [] Map.empty))) =
     [(member ''A'' 2 False, Raises ''boom''),
      (member ''B'' 1 True,
       Returns \<lparr>ar_status = ''success'', ar_outputs = [], ar_error = None\<rparr>)] \<and>
   tr_status (projr (fst (team_execute optional_parallel_raises [] Map.empty))) = ''success'' \<and>
   tr_error (projr (fst (team_execute optional_parallel_raises [] Map.empty))) = None \<and>
   fst (team_execute stringly_typed [] Map.empty) =
     Inl (AttributeError ([CHR 0x27] @ ''str'' @ [CHR 0x27] @ '' object has no attribute '' @
                          [CHR 0x27] @ ''value'' @ [CHR 0x27]))"
  by (simp add: optional_parallel_raises_def stringly_typed_def team_defs method_defs)

subsection \<open>Misconfigured teams\<close>

text \<open>
  C6 (amended). A team without members, or with a strategy that is not a member of the
  enum, invokes no agent. What the caller receives depends on the strategy:
  \<^item> a strategy without the attribute \<^verbatim>\<open>value\<close> (a \<^verbatim>\<open>str\<close>, \<^verbatim>\<open>None\<close>): the
    \<^verbatim>\<open>AttributeError\<close> of the log line before the \<^verbatim>\<open>try\<close>, no \<^verbatim>\<open>TeamResult\<close>,
    and the agents stay joined to the team;
  \<^item> another strategy outside the enum: a \<^verbatim>\<open>TeamResult\<close> with status \<^verbatim>\<open>error\<close>,
    the error \<^verbatim>\<open>Unknown strategy: ...\<close> and zero members executed;
  \<^item> LEADER\_FOLLOWER without members (\<^verbatim>\<open>max\<close> of no members raises): a
    \<^verbatim>\<open>TeamResult\<close> with status \<^verbatim>\<open>error\<close> and zero members executed;
  \<^item> SEQUENTIAL, PARALLEL, CONSENSUS or PIPELINE without members: a \<^verbatim>\<open>TeamResult\<close>
    with status \<^verbatim>\<open>success\<close>, no error and zero members executed.
\<close>

theorem misconfigured_team:
  assumes mis: "members (config T) = [] \<or> (\<exists>s. strategy (config T) = OTHER s) \<or>
                (\<exists>ty s. strategy (config T) = NO_VALUE ty s)"
  shows "\<exists>r st cur'.
           team_execute T task cur = (r, st, cur') \<and> invoked st = [] \<and>
           ((\<exists>ty s. strategy (config T) = NO_VALUE ty s) \<longrightarrow>
              (\<exists>msg. r = Inl (AttributeError msg)) \<and> cur' = join_members T cur) \<and>
           (\<forall>s. strategy (config T) = OTHER s \<longrightarrow>
              (\<exists>res. r = Inr res \<and> tr_status res = ''error'' \<and>
                 tr_error res = Some (''Unknown strategy: '' @ s) \<and>
                 tr_agents_executed res = 0 \<and> tr_agent_results res = [])) \<and>
           (strategy (config T) = LEADER_FOLLOWER \<longrightarrow>
              (\<exists>res. r = Inr res \<and> tr_status res = ''error'' \<and> tr_error res \<noteq> None \<and>
                 tr_agents_executed res = 0 \<and> tr_agent_results res = [])) \<and>
           (strategy (config T) \<in> {SEQUENTIAL, PARALLEL, CONSENSUS, PIPELINE} \<longrightarrow>
              (\<exists>res. r = Inr res \<and> tr_status res = ''success'' \<and> tr_error res = None \<and>
                 tr_agents_executed res = 0 \<and> tr_agent_results res = []))"
proof (cases "strategy (config T)")
  case SEQUENTIAL
  with mis show ?thesis
    by (simp add: method_defs execute_def run_strategy_def execute_sequential_def
        sorted_members_def team_result_def initial_state_def)
next
  case PARALLEL
  with mis show ?thesis
    by (simp add: method_defs execute_def run_strategy_def execute_parallel_def team_result_def
        initial_state_def)
next
  case CONSENSUS
  with mis show ?thesis
    by (simp add: method_defs execute_def run_strategy_def execute_consensus_def
        execute_parallel_def team_result_def initial_state_def)
next
  case LEADER_FOLLOWER
  with mis show ?thesis
    by (simp add: method_defs execute_def run_strategy_def execute_leader_follower_def
        team_result_def initial_state_def)
next
  case PIPELINE
  with mis show ?thesis
    by (simp add: method_defs execute_def run_strategy_def execute_pipeline_def
        sorted_members_def team_result_def initial_state_def)
next
  case (OTHER s)
  then show ?thesis
    by (simp add: method_defs execute_def run_strategy_def team_result_def initial_state_def)
next
  case (NO_VALUE ty s)
  then show ?thesis
    by (simp add: method_defs initial_state_def)
qed

theorem misconfigured_team_witness:
  "strategy (config unknown_strategy) = OTHER ''vote'' \<and>
   invoked (fst (snd (team_execute unknown_strategy [] Map.empty))) = [] \<and>
   tr_status (projr (fst (team_execute unknown_strategy [] Map.empty))) = ''error'' \<and>
   tr_error (projr (fst (team_execute unknown_strategy [] Map.empty))) =
     Some ''Unknown strategy: vote'' \<and>
   tr_agents_executed (projr (fst (team_execute unknown_strategy [] Map.empty))) = 0 \<and>
   strategy (config stringly_typed) = NO_VALUE ''str'' ''sequential'' \<and>
   invoked (fst (snd (team_execute stringly_typed [] Map.empty))) = [] \<and>
   isl (fst (team_execute stringly_typed [] Map.empty)) \<and>
   snd (snd (team_execute stringly_typed [] Map.empty)) ''A'' = Some ''t'' \<and>
   members (config empty_leader_follower) = [] \<and>
   strategy (config empty_leader_follower) = LEADER_FOLLOWER \<and>
   invoked (fst (snd (team_execute empty_leader_follower [] Map.empty))) = [] \<and>
   tr_status (projr (fst (team_execute empty_leader_follower [] Map.empty))) = ''error''"
proof -
  have s1: "strategy (config unknown_strategy) = OTHER ''vote''"
    and s2: "strategy (config stringly_typed) = NO_VALUE ''str'' ''sequential''"
    and s3: "strategy (config empty_leader_follower) = LEADER_FOLLOWER"
    and m3: "members (config empty_leader_follower) = []"
    and j2: "join_members stringly_typed Map.empty ''A'' = Some ''t''"
    by (simp_all add: unknown_strategy_def stringly_typed_def empty_leader_follower_def
        team_of_def join_members_def)
  from s1 have h1: "members (config unknown_strategy) = [] \<or>
      (\<exists>s. strategy (config unknown_strategy) = OTHER s) \<or>
      (\<exists>ty s. strategy (config unknown_strategy) = NO_VALUE ty s)"
    by simp
  from s2 have h2: "members (config stringly_typed) = [] \<or>
      (\<exists>s. strategy (config stringly_typed) = OTHER s) \<or>
      (\<exists>ty s. strategy (config stringly_typed) = NO_VALUE ty s)"
    by simp
  from m3 have h3: "members (config empty_leader_follower) = [] \<or>
      (\<exists>s. strategy (config empty_leader_follower) = OTHER s) \<or>
      (\<exists>ty s. strategy (config empty_leader_follower) = NO_VALUE ty s)"
    by simp
  from misconfigured_team[OF h1, of "[]" Map.empty] s1 obtain res1 st1 cur1 where
    "team_execute unknown_strategy [] Map.empty = (Inr res1, st1, cur1)" "invoked st1 = []"
    "tr_status res1 = ''error''" "tr_error res1 = Some (''Unknown strategy: '' @ ''vote'')"
    "tr_agents_executed res1 = 0"
    by auto
  then have r1: "invoked (fst (snd (team_execute unknown_strategy [] Map.empty))) = []"
    "tr_status (projr (fst (team_execute unknown_strategy [] Map.empty))) = ''error''"
    "tr_error (projr (fst (team_execute unknown_strategy [] Map.empty))) =
       Some ''Unknown strategy: vote''"
    "tr_agents_executed (projr (fst (team_execute unknown_strategy [] Map.empty))) = 0"
    by simp_all
  from misconfigured_team[OF h2, of "[]" Map.empty] s2 obtain msg st2 where
    "team_execute stringly_typed [] Map.empty =
       (Inl (AttributeError msg), st2, join_members stringly_typed Map.empty)"
    "invoked st2 = []"
    by auto
  with j2 have r2: "invoked (fst (snd (team_execute stringly_typed [] Map.empty))) = []"
    "isl (fst (team_execute stringly_typed [] Map.empty))"
    "snd (snd (team_execute stringly_typed [] Map.empty)) ''A'' = Some ''t''"
    by simp_all
  from misconfigured_team[OF h3, of "[]" Map.empty] s3 obtain res3 st3 cur3 where
    "team_execute empty_leader_follower [] Map.empty = (Inr res3, st3, cur3)" "invoked st3 = []"
    "tr_status res3 = ''error''"
    by auto
  then have r3: "invoked (fst (snd (team_execute empty_leader_follower [] Map.empty))) = []"
    "tr_status (projr (fst (team_execute empty_leader_follower [] Map.empty))) = ''error''"
    by simp_all
  from s1 r1 s2 r2 m3 s3 r3 show ?thesis by blast
qed

text \<open>
  C6 (counterexample). A SEQUENTIAL team without members returns \<^verbatim>\<open>success\<close>; and
  a team whose strategy is the string \<^verbatim>\<open>"sequential"\<close> yields no \<^verbatim>\<open>TeamResult\<close>
  at all.
\<close>

theorem empty_members_succeed:
  "members (config empty_sequential) = [] \<and>
   tr_status (fst (execute empty_sequential [])) = ''success'' \<and>
   tr_status (projr (fst (team_execute empty_sequential [] Map.empty))) = ''success'' \<and>
   tr_error (projr (fst (team_execute empty_sequential [] Map.empty))) = None \<and>
   \<not> isl (fst (team_execute empty_sequential [] Map.empty)) \<and>
   isl (fst (team_execute stringly_typed [] Map.empty))"
  by (simp add: empty_sequential_def stringly_typed_def team_defs method_defs)

subsection \<open>Optional members\<close>

text \<open>
  C7 (amended). Under SEQUENTIAL, PARALLEL and CONSENSUS, for a team whose members are
  all optional, all loaded and of distinct ids: whatever the members do, the status is
  \<^verbatim>\<open>success\<close>, every member is invoked, a member whose invocation returned a result
  (an error result included) has that result in \<^verbatim>\<open>agent_results\<close>, and a member
  whose invocation raised has no entry there.
\<close>

theorem optional_members_failures:
  assumes strat: "strategy (config T) \<in> {SEQUENTIAL, PARALLEL, CONSENSUS}"
    and opt: "\<forall>m\<in>set (members (config T)). \<not> required m \<and> agent_id m \<in> dom (team_members T)"
    and dist: "distinct (map agent_id (members (config T)))"
    and ex: "execute T task = (res, st)"
  shows "tr_status res = ''success'' \<and>
         mset (map fst (invoked st)) = mset (members (config T)) \<and>
         (\<forall>m r. (m, Returns r) \<in> set (invoked st) \<longrightarrow>
            map_of (tr_agent_results res) (agent_id m) = Some r) \<and>
         (\<forall>m msg. (m, Raises msg) \<in> set (invoked st) \<longrightarrow>
            map_of (tr_agent_results res) (agent_id m) = None)"
proof -
  let ?ms = "members (config T)"
  from execute_run[OF ex] obtain r0 where run: "run_strategy T task (initial_state T) = (r0, st)"
    and ok: "\<And>res0. r0 = Inr res0 \<Longrightarrow>
           res = res0\<lparr>tr_agents_executed := length (tr_agent_results res0)\<rparr>"
    by blast
  have core: "\<exists>res0 ms'. r0 = Inr res0 \<and> tr_status res0 = ''success'' \<and>
      tr_agent_results res0 = record_all (returned (invoked st)) [] \<and>
      map fst (invoked st) = ms' \<and> mset ms' = mset ?ms"
  proof -
    consider "strategy (config T) = SEQUENTIAL" | "strategy (config T) = PARALLEL"
      | "strategy (config T) = CONSENSUS"
      using strat by auto
    then show ?thesis
    proof cases
      case 1
      from 1 run have l: "sequential_loop T task (sorted_members ?ms) [] [] (initial_state T) = (r0, st)"
        by (rule sequential_run)
      from opt have "\<forall>m\<in>set (sorted_members ?ms). \<not> required m \<and> agent_id m \<in> dom (team_members T)"
        by (simp add: set_sorted_members)
      from sequential_loop_optional[OF l this] obtain res0 where
        r0: "r0 = Inr res0" and s: "tr_status res0 = ''success''"
        by blast
      from sequential_from_start(2,3)[OF l r0] s r0 show ?thesis
        by (simp add: mset_sorted_members)
    next
      case 2
      from 2 run have l: "parallel_loop T task ?ms [] [] (initial_state T) = (r0, st)"
        by (rule parallel_run)
      from parallel_loop_optional[OF l opt] obtain res0 where
        r0: "r0 = Inr res0" and s: "tr_status res0 = ''success''"
        by blast
      from parallel_from_start[OF l r0] s r0 show ?thesis
        by simp
    next
      case 3
      from consensus_run[OF 3 run] obtain p where
        l: "parallel_loop T task ?ms [] [] (initial_state T) = (p, st)"
        and wrap: "\<And>res0. p = Inr res0 \<Longrightarrow> \<exists>outs. r0 = Inr (res0\<lparr>tr_outputs := outs\<rparr>)"
        by blast
      from parallel_loop_optional[OF l opt] obtain res0 where
        p: "p = Inr res0" and s: "tr_status res0 = ''success''"
        by blast
      from wrap[OF p] obtain outs where "r0 = Inr (res0\<lparr>tr_outputs := outs\<rparr>)"
        by blast
      with parallel_from_start[OF l p] s show ?thesis
        by simp
    qed
  qed
  then obtain res0 where r0: "r0 = Inr res0" and s: "tr_status res0 = ''success''"
    and ars0: "tr_agent_results res0 = record_all (returned (invoked st)) []"
    and perm: "mset (map fst (invoked st)) = mset ?ms"
    by blast
  have res: "res = res0\<lparr>tr_agents_executed := length (tr_agent_results res0)\<rparr>"
    using ok r0 by simp
  have ars: "tr_agent_results res = record_all (returned (invoked st)) []"
    using res ars0 by simp
  have "mset (map agent_id (map fst (invoked st))) = mset (map agent_id ?ms)"
    using perm by (metis mset_map)
  then have "distinct (map agent_id (map fst (invoked st)))"
    using dist by (metis mset_eq_imp_distinct_iff)
  then have dlog: "distinct (map (\<lambda>e. agent_id (fst e)) (invoked st))"
    by (simp add: comp_def)
  have ret: "map_of (tr_agent_results res) (agent_id m) = Some r"
    if "(m, Returns r) \<in> set (invoked st)" for m r
    using record_all_lookup[OF returned_distinct[OF dlog] returned_mem[OF that]]
    by (simp add: ars)
  have rai: "map_of (tr_agent_results res) (agent_id m) = None"
    if "(m, Raises msg) \<in> set (invoked st)" for m msg
    using record_all_other[OF raised_not_returned[OF dlog that]]
    by (simp add: ars)
  from s res perm ret rai show ?thesis by simp
qed

theorem optional_members_failures_witness:
  "strategy (config optional_failures) \<in> {SEQUENTIAL, PARALLEL, CONSENSUS} \<and>
   members (config optional_failures) = [member ''A'' 2 False, member ''B'' 1 False] \<and>
   required (member ''A'' 2 False) = False \<and> required (member ''B'' 1 False) = False \<and>
   dom (team_members optional_failures) = {''A'', ''B''} \<and>
   distinct (map agent_id (members (config optional_failures))) \<and>
   invoked (snd (execute optional_failures [])) =
     [(member ''A'' 2 False, Raises ''boom''),
      (member ''B'' 1 False,
       Returns \<lparr>ar_status = ''error'', ar_outputs = [], ar_error = Some ''bad''\<rparr>)] \<and>
   tr_status (fst (execute optional_failures [])) = ''success'' \<and>
   map_of (tr_agent_results (fst (execute optional_failures []))) ''B'' =
     Some \<lparr>ar_status = ''error'', ar_outputs = [], ar_error = Some ''bad''\<rparr> \<and>
   map_of (tr_agent_results (fst (execute optional_failures []))) ''A'' = None"
proof -
  let ?rb = "\<lparr>ar_status = ''error'', ar_outputs = [], ar_error = Some ''bad''\<rparr>"
  have h1: "strategy (config optional_failures) \<in> {SEQUENTIAL, PARALLEL, CONSENSUS}"
    by (simp add: optional_failures_def team_of_def)
  have h2: "\<forall>m\<in>set (members (config optional_failures)).
      \<not> required m \<and> agent_id m \<in> dom (team_members optional_failures)"
    by (simp add: optional_failures_def team_of_def member_def)
  have h3: "distinct (map agent_id (members (config optional_failures)))"
    by (simp add: optional_failures_def team_of_def member_def)
  have h4: "execute optional_failures [] =
      (fst (execute optional_failures []), snd (execute optional_failures []))"
    by simp
  have log: "invoked (snd (execute optional_failures [])) =
     [(member ''A'' 2 False, Raises ''boom''), (member ''B'' 1 False, Returns ?rb)]"
    by (simp add: optional_failures_def team_defs)
  have ids: "agent_id (member ''A'' 2 False) = ''A''" "agent_id (member ''B'' 1 False) = ''B''"
    by (simp_all add: member_def)
  have a: "(member ''A'' 2 False, Raises ''boom'') \<in> set (invoked (snd (execute optional_failures [])))"
    and b: "(member ''B'' 1 False, Returns ?rb) \<in> set (invoked (snd (execute optional_failures [])))"
    by (simp_all add: log)
  from optional_members_failures[OF h1 h2 h3 h4] a b ids
  have "tr_status (fst (execute optional_failures [])) = ''success'' \<and>
   map_of (tr_agent_results (fst (execute optional_failures []))) ''B'' = Some ?rb \<and>
   map_of (tr_agent_results (fst (execute optional_failures []))) ''A'' = None"
    by metis
  moreover have "members (config optional_failures) = [member ''A'' 2 False, member ''B'' 1 False]"
    "required (member ''A'' 2 False) = False" "required (member ''B'' 1 False) = False"
    "dom (team_members optional_failures) = {''A'', ''B''}"
    by (auto simp add: optional_failures_def team_of_def member_def)
  ultimately show ?thesis using h1 h3 log by blast
qed

text \<open>
  C7 (counterexample). Under SEQUENTIAL an optional member whose invocation raises does
  not appear in \<^verbatim>\<open>agent_results\<close>. Under PIPELINE the exception of an optional
  member, and under LEADER\_FOLLOWER the error result of an optional leader, give the
  status \<^verbatim>\<open>error\<close>.
\<close>

theorem raising_member_not_recorded:
  "required (member ''A'' 1 False) = False \<and>
   invoked (snd (execute optional_raises [])) = [(member ''A'' 1 False, Raises ''boom'')] \<and>
   tr_status (fst (execute optional_raises [])) = ''success'' \<and>
   tr_agent_results (fst (execute optional_raises [])) = [] \<and>
   tr_status (fst (execute optional_stage_raises [])) = ''error'' \<and>
   required (member ''L'' 2 False) = False \<and> required (member ''F'' 1 False) = False \<and>
   tr_status (fst (execute optional_leader_fails [])) = ''error''"
  by (simp add: optional_raises_def optional_stage_raises_def optional_leader_fails_def team_defs)

end
